theory Spec2Isabelle
  imports Complex_Main "HOL-Library.AList" "HOL-Library.Multiset"
begin

section \<open>Fleet management service: data model\<close>

text \<open>
  The service of \<^verbatim>\<open>src/javascriptcode.js\<close> keeps three process-wide \<^verbatim>\<open>Map\<close>s
  (\<^verbatim>\<open>vehicles\<close>, \<^verbatim>\<open>telemetryData\<close>, \<^verbatim>\<open>alerts\<close>) and serves HTTP requests against them.
  A JavaScript \<^verbatim>\<open>Map\<close> remembers insertion order, so each one is an association list:
  \<^verbatim>\<open>has\<close>/\<^verbatim>\<open>get\<close> are \<open>map_of\<close>, \<^verbatim>\<open>set\<close> is \<open>AList.update\<close> (replace in place, else
  append), \<^verbatim>\<open>delete\<close> is \<open>AList.delete\<close>.

  A JavaScript string is a sequence of UTF-16 code units. A \<open>string\<close> here is a list of
  \<open>char\<close>s, each one code unit below 256 (\<open>of_char\<close> gives its number); text with a
  higher code unit is not represented.
\<close>

subsection \<open>JavaScript values read from a request\<close>

text \<open>
  The numeric telemetry fields arrive as JSON: a number, \<^verbatim>\<open>null\<close>, or nothing at all
  (\<^verbatim>\<open>undefined\<close>). JSON numbers are finite, and comparing a finite double with the
  literals 80 and 15 agrees with comparing the real numbers they denote.
\<close>

datatype jsval = Undefined | Null | Num real

text \<open>Fields the program only stores and never inspects (location, engine status).\<close>

datatype json = JUndefined | JNull | JNum real | JStr string | JObj "(string \<times> json) list"

text \<open>
  \<^verbatim>\<open>v > c\<close> and \<^verbatim>\<open>v < c\<close> for a numeric literal \<open>c\<close>: both sides go through ToNumber,
  \<^verbatim>\<open>null\<close> becomes 0, \<^verbatim>\<open>undefined\<close> becomes NaN, and every comparison with NaN is false.
\<close>

fun js_gt :: "jsval \<Rightarrow> real \<Rightarrow> bool" where
  "js_gt (Num x) c = (x > c)"
| "js_gt Null c = (0 > c)"
| "js_gt Undefined c = False"

fun js_lt :: "jsval \<Rightarrow> real \<Rightarrow> bool" where
  "js_lt (Num x) c = (x < c)"
| "js_lt Null c = (0 < c)"
| "js_lt Undefined c = False"

subsection \<open>The environment of one request\<close>

text \<open>
  \<^verbatim>\<open>uuidv4()\<close> and \<^verbatim>\<open>new Date()\<close> are the two effects a handler reads from outside.
  A request comes with an environment that answers the \<open>k\<close>-th such call made while it is
  served; the handlers thread the call counter. Nothing is assumed of the answers: the
  identifiers need not be distinct and the clock need not advance.
\<close>

record env =
  uuidv4 :: "nat \<Rightarrow> string"
  newDate :: "nat \<Rightarrow> int"

subsection \<open>Classes\<close>

record Vehicle =
  vin :: string
  manufacturer :: string
  model :: string
  fleetId :: string
  owner :: string
  registrationStatus :: string
  createdAt :: int
  updatedAt :: int

record TelemetryRecord =
  t_id :: string
  t_vin :: string
  speed :: jsval
  fuelLevel :: jsval
  batteryLevel :: jsval
  location :: json
  engineStatus :: json
  timestamp :: int

text \<open>
  An alert's message is a template literal over the VIN and the offending value. The
  pieces are kept apart, the value unformatted (Number-to-string conversion is not
  modelled).
\<close>

datatype piece = Lit string | Val jsval

record Alert =
  a_id :: string
  a_vin :: string
  a_type :: string
  a_message :: "piece list"
  a_severity :: string
  a_timestamp :: int
  a_status :: string

text \<open>\<^verbatim>\<open>new TelemetryRecord(...)\<close>: one \<^verbatim>\<open>uuidv4()\<close>, then one \<^verbatim>\<open>new Date()\<close>.\<close>

definition new_TelemetryRecord ::
  "env \<Rightarrow> nat \<Rightarrow> string \<Rightarrow> jsval \<Rightarrow> jsval \<Rightarrow> jsval \<Rightarrow> json \<Rightarrow> json \<Rightarrow> TelemetryRecord" where
  "new_TelemetryRecord e k v sp fl bl loc es =
     \<lparr>t_id = uuidv4 e k, t_vin = v, speed = sp, fuelLevel = fl, batteryLevel = bl,
      location = loc, engineStatus = es, timestamp = newDate e (k + 1)\<rparr>"

text \<open>\<^verbatim>\<open>new Alert(vin, type, message, severity)\<close>; the status starts as \<^verbatim>\<open>'Active'\<close>.\<close>

definition new_Alert :: "env \<Rightarrow> nat \<Rightarrow> string \<Rightarrow> string \<Rightarrow> piece list \<Rightarrow> string \<Rightarrow> Alert" where
  "new_Alert e k v ty msg sev =
     \<lparr>a_id = uuidv4 e k, a_vin = v, a_type = ty, a_message = msg, a_severity = sev,
      a_timestamp = newDate e (k + 1), a_status = ''Active''\<rparr>"

section \<open>Alert generation\<close>

text \<open>
  \<^verbatim>\<open>generateAlerts(telemetry)\<close>: three independent \<^verbatim>\<open>if\<close> statements in a row. Each one
  that fires builds an alert, stores it in the \<^verbatim>\<open>alerts\<close> map under its identifier and
  pushes it on the returned array. The function gets the map and the call counter and
  returns the array, the new map and the new counter.
\<close>

definition generateAlerts ::
  "env \<Rightarrow> nat \<Rightarrow> TelemetryRecord \<Rightarrow> (string \<times> Alert) list
     \<Rightarrow> Alert list \<times> (string \<times> Alert) list \<times> nat" where
  "generateAlerts e k0 telemetry al0 =
     (let (gen1, al1, k1) =
            (if js_gt (speed telemetry) 80 then
               (let alert = new_Alert e k0 (t_vin telemetry) ''SPEED_VIOLATION''
                              [Lit ''Vehicle '', Lit (t_vin telemetry),
                               Lit '' exceeded speed limit: '', Val (speed telemetry),
                               Lit '' km/h''] ''High''
                in ([alert], AList.update (a_id alert) alert al0, k0 + 2))
             else ([], al0, k0));
          (gen2, al2, k2) =
            (if fuelLevel telemetry \<noteq> Null \<and> js_lt (fuelLevel telemetry) 15 then
               (let alert = new_Alert e k1 (t_vin telemetry) ''LOW_FUEL''
                              [Lit ''Vehicle '', Lit (t_vin telemetry),
                               Lit '' has low fuel: '', Val (fuelLevel telemetry),
                               Lit ''%''] ''Medium''
                in (gen1 @ [alert], AList.update (a_id alert) alert al1, k1 + 2))
             else (gen1, al1, k1));
          (gen3, al3, k3) =
            (if batteryLevel telemetry \<noteq> Null \<and> js_lt (batteryLevel telemetry) 15 then
               (let alert = new_Alert e k2 (t_vin telemetry) ''LOW_BATTERY''
                              [Lit ''Vehicle '', Lit (t_vin telemetry),
                               Lit '' has low battery: '', Val (batteryLevel telemetry),
                               Lit ''%''] ''Medium''
                in (gen2 @ [alert], AList.update (a_id alert) alert al2, k2 + 2))
             else (gen2, al2, k2))
      in (gen3, al3, k3))"

text \<open>What a reader of an alert list sees of each alert: its kind and its severity.\<close>

definition kinds :: "Alert list \<Rightarrow> (string \<times> string) list" where
  "kinds as = map (\<lambda>a. (a_type a, a_severity a)) as"

text \<open>
  The rules as the code applies them, one per kind, as predicates on a reading.
\<close>

definition speedRule :: "TelemetryRecord \<Rightarrow> bool" where
  "speedRule t = js_gt (speed t) 80"

definition fuelRule :: "TelemetryRecord \<Rightarrow> bool" where
  "fuelRule t = (fuelLevel t \<noteq> Null \<and> js_lt (fuelLevel t) 15)"

definition batteryRule :: "TelemetryRecord \<Rightarrow> bool" where
  "batteryRule t = (batteryLevel t \<noteq> Null \<and> js_lt (batteryLevel t) 15)"

section \<open>Requests, responses and the stores\<close>

record state =
  vehicles :: "(string \<times> Vehicle) list"
  telemetryData :: "(string \<times> TelemetryRecord list) list"
  alerts :: "(string \<times> Alert) list"

definition init :: state where
  "init = \<lparr>vehicles = [], telemetryData = [], alerts = []\<rparr>"

text \<open>\<^verbatim>\<open>map.has(k)\<close>.\<close>

definition has :: "(string \<times> 'v) list \<Rightarrow> string \<Rightarrow> bool" where
  "has m k = (map_of m k \<noteq> None)"

text \<open>
  One element of the \<^verbatim>\<open>records\<close> array of a batch, and the JSON body of a request,
  restricted to the keys some handler reads. A string-valued key is \<open>None\<close> when it is
  absent; the numeric telemetry fields are \<open>jsval\<close>s; \<open>b_records\<close> is \<open>None\<close> when
  \<^verbatim>\<open>records\<close> is not an array.
\<close>

record batch_record =
  br_vin :: "string option"
  br_speed :: jsval
  br_fuelLevel :: jsval
  br_batteryLevel :: jsval
  br_location :: json
  br_engineStatus :: json

record body =
  b_vin :: "string option"
  b_manufacturer :: "string option"
  b_model :: "string option"
  b_fleetId :: "string option"
  b_owner :: "string option"
  b_registrationStatus :: "string option"
  b_speed :: jsval
  b_fuelLevel :: jsval
  b_batteryLevel :: jsval
  b_location :: json
  b_engineStatus :: json
  b_records :: "batch_record list option"
  b_status :: "string option"

text \<open>The request method; \<open>OTHER\<close> stands for every method not listed.\<close>

datatype verb = GET | HEAD | POST | PUT | DELETE | OTHER

text \<open>
  One segment of the request path, the text between two slashes: \<open>raw\<close> is the text as
  it stands in the URL, which Express matches against the route; \<open>decoded\<close> is what
  \<^verbatim>\<open>decodeURIComponent\<close> makes of it, which a handler sees as route parameter, and is
  \<open>None\<close> when \<^verbatim>\<open>decodeURIComponent\<close> throws. Percent-decoding itself is not modelled:
  nothing is assumed of how the two relate. A segment without \<^verbatim>\<open>%\<close> decodes to itself
  (\<open>plain\<close>).
\<close>

record segment =
  raw :: string
  decoded :: "string option"

definition plain :: "string \<Rightarrow> segment" where
  "plain x = \<lparr>raw = x, decoded = Some x\<rparr>"

text \<open>
  A request: its method, the segments of its path (the path \<^verbatim>\<open>/s1/.../sn\<close> has the
  segments \<open>s1\<close> to \<open>sn\<close>, so \<^verbatim>\<open>/api/telemetry/batch\<close> is
  \<open>map plain [''api'', ''telemetry'', ''batch'']\<close> and a path that ends with a slash has an
  empty last segment), its query string as a map, and its body.
\<close>

record request =
  r_method :: verb
  r_path :: "segment list"
  r_query :: "string \<Rightarrow> string option"
  r_body :: body

datatype batch_item =
    ItemOk string TelemetryRecord
  | ItemFailed "string option" string

text \<open>
  The JSON a handler answers with. \<open>Failure m\<close> is \<^verbatim>\<open>{success: false, message: m}\<close>
  (the error middleware adds an \<^verbatim>\<open>error\<close> text to it); every other payload but
  \<open>ValidationErrors\<close> has \<^verbatim>\<open>success: true\<close>. A \<open>HEAD\<close> request gets the status without the
  JSON.
\<close>

datatype payload =
    ValidationErrors "string list"
  | Failure string
  | Done string
  | VehicleData Vehicle
  | VehicleList "Vehicle list" nat
  | TelemetryCreated TelemetryRecord "Alert list"
  | BatchResult "batch_item list" nat "Alert list"
  | HistoryData "TelemetryRecord list" nat
  | LatestData TelemetryRecord
  | AlertList "Alert list" nat
  | AlertData Alert
  | Health int nat nat nat

type_synonym response = "nat \<times> payload"

text \<open>A query parameter or body string is truthy when it is present and not empty.\<close>

definition truthy :: "string option \<Rightarrow> bool" where
  "truthy q = (case q of None \<Rightarrow> False | Some s \<Rightarrow> s \<noteq> [])"

subsection \<open>\<^verbatim>\<open>parseInt\<close> and \<^verbatim>\<open>Array.prototype.slice\<close>\<close>

text \<open>
  \<^verbatim>\<open>parseInt(s)\<close> with no radix: leading white space is dropped, then an optional sign,
  then an optional \<^verbatim>\<open>0x\<close>/\<^verbatim>\<open>0X\<close> prefix that selects radix 16, then the longest prefix of
  digits; with no digit the result is NaN, here \<open>None\<close>. (Beyond \<open>2^53\<close> JavaScript rounds
  the value; \<^verbatim>\<open>slice\<close> clamps it to the array length either way.)
\<close>

text \<open>
  The white space that \<^verbatim>\<open>parseInt\<close> skips, by code unit: TAB, LF, VT, FF, CR, space,
  U+00A0, U+1680, U+2000 to U+200A, U+2028, U+2029, U+202F, U+205F, U+3000 and U+FEFF.
\<close>

definition isWhiteUnit :: "nat \<Rightarrow> bool" where
  "isWhiteUnit n =
     (n \<in> {9, 10, 11, 12, 13, 32, 160, 5760, 8232, 8233, 8239, 8287, 12288, 65279} \<or>
      (8192 \<le> n \<and> n \<le> 8202))"

definition isWhite :: "char \<Rightarrow> bool" where
  "isWhite c = isWhiteUnit (of_char c)"

definition digitVal :: "nat \<Rightarrow> char \<Rightarrow> nat option" where
  "digitVal R c =
     (let n = (of_char c :: nat);
          d = (if 48 \<le> n \<and> n \<le> 57 then Some (n - 48)
               else if 97 \<le> n \<and> n \<le> 122 then Some (n - 87)
               else if 65 \<le> n \<and> n \<le> 90 then Some (n - 55)
               else None)
      in case d of None \<Rightarrow> None | Some v \<Rightarrow> if v < R then Some v else None)"

fun digits :: "nat \<Rightarrow> string \<Rightarrow> nat list" where
  "digits R [] = []"
| "digits R (c # cs) = (case digitVal R c of None \<Rightarrow> [] | Some v \<Rightarrow> v # digits R cs)"

definition parseInt :: "string \<Rightarrow> int option" where
  "parseInt str =
     (let s = dropWhile isWhite str;
          (neg, s1) = (case s of
                         [] \<Rightarrow> (False, s)
                       | c # cs \<Rightarrow> if c = CHR ''-'' then (True, cs)
                                  else if c = CHR ''+'' then (False, cs)
                                  else (False, s));
          (R, s2) = (case s1 of
                       a # b # cs \<Rightarrow> if a = CHR ''0'' \<and> (b = CHR ''x'' \<or> b = CHR ''X'')
                                     then (16, cs) else (10, s1)
                     | _ \<Rightarrow> (10, s1));
          ds = digits R s2
      in if ds = [] then None
         else Some ((if neg then - 1 else 1) * int (foldl (\<lambda>acc d. acc * R + d) 0 ds)))"

text \<open>
  The index arithmetic of \<^verbatim>\<open>slice\<close>: NaN counts as 0, a negative index counts from the
  end, and the result is clamped to \<open>0..len\<close>. \<^verbatim>\<open>a.slice(i)\<close> is \<open>sliceFrom\<close>,
  \<^verbatim>\<open>a.slice(0, i)\<close> is \<open>sliceTo\<close>.
\<close>

definition relIndex :: "int option \<Rightarrow> nat \<Rightarrow> nat" where
  "relIndex i len =
     (case i of
        None \<Rightarrow> 0
      | Some n \<Rightarrow> if n < 0 then nat (max (int len + n) 0) else min (nat n) len)"

definition sliceFrom :: "'a list \<Rightarrow> int option \<Rightarrow> 'a list" where
  "sliceFrom xs i = drop (relIndex i (length xs)) xs"

definition sliceTo :: "'a list \<Rightarrow> int option \<Rightarrow> 'a list" where
  "sliceTo xs i = take (relIndex i (length xs)) xs"


section \<open>Handlers\<close>

text \<open>
  Every handler takes the route parameter (the text matched by \<^verbatim>\<open>:vin\<close> or
  \<^verbatim>\<open>:alertId\<close>; unused by routes without one), the environment, the request and the
  stores, and returns the response and the stores after it. With request values of the
  types above no handler throws, so the \<^verbatim>\<open>catch\<close> branches (status 500) do not occur.
\<close>

type_synonym handler = "string \<Rightarrow> env \<Rightarrow> request \<Rightarrow> state \<Rightarrow> response \<times> state"

subsection \<open>Vehicles\<close>

definition validateVIN :: "string option \<Rightarrow> bool" where
  "validateVIN v = (case v of None \<Rightarrow> False | Some s \<Rightarrow> s \<noteq> [] \<and> length s = 17)"

definition validateVehicleData :: "body \<Rightarrow> string list" where
  "validateVehicleData d =
     (if \<not> validateVIN (b_vin d) then [''VIN must be a 17-character string''] else []) @
     (if \<not> truthy (b_manufacturer d)
        then [''Manufacturer is required and must be a string''] else []) @
     (if \<not> truthy (b_model d) then [''Model is required and must be a string''] else []) @
     (if \<not> truthy (b_fleetId d) then [''Fleet ID is required and must be a string''] else []) @
     (if \<not> truthy (b_owner d) then [''Owner is required and must be a string''] else []) @
     (case b_registrationStatus d of
        None \<Rightarrow> []
      | Some st \<Rightarrow>
          if st \<noteq> [] \<and> st \<notin> set [''Active'', ''Maintenance'', ''Decommissioned'']
          then [''Registration status must be Active, Maintenance, or Decommissioned'']
          else [])"

text \<open>
  \<^verbatim>\<open>POST /api/vehicles\<close>. The constructor's default \<^verbatim>\<open>'Active'\<close> applies when the
  status is absent. A new vehicle gets an empty telemetry array. (When the validation
  finds no error the five required strings are present, so the last branch is never
  taken.)
\<close>

definition createVehicle :: handler where
  "createVehicle p e r s =
     (let d = r_body r; validationErrors = validateVehicleData d
      in if validationErrors \<noteq> [] then ((400, ValidationErrors validationErrors), s)
         else
           (case (b_vin d, b_manufacturer d, b_model d, b_fleetId d, b_owner d) of
              (Some v, Some ma, Some mo, Some fl, Some ow) \<Rightarrow>
                if has (vehicles s) v
                then ((409, Failure ''Vehicle with this VIN already exists''), s)
                else
                  (let vehicle =
                         \<lparr>vin = v, manufacturer = ma, model = mo, fleetId = fl, owner = ow,
                          registrationStatus =
                            (case b_registrationStatus d of None \<Rightarrow> ''Active'' | Some st \<Rightarrow> st),
                          createdAt = newDate e 0, updatedAt = newDate e 1\<rparr>
                   in ((201, VehicleData vehicle),
                       s\<lparr>vehicles := AList.update v vehicle (vehicles s),
                         telemetryData := AList.update v [] (telemetryData s)\<rparr>))
            | _ \<Rightarrow> ((400, ValidationErrors validationErrors), s)))"

text \<open>
  \<^verbatim>\<open>toLowerCase\<close>, for the manufacturer filter. Among the code units below 256 the
  upper-case letters are A to Z and U+00C0 to U+00DE without the multiplication sign
  U+00D7; each has its lower-case letter 32 places on.
\<close>

definition toLowerCase :: "string \<Rightarrow> string" where
  "toLowerCase str =
     map (\<lambda>c. let n = (of_char c :: nat)
               in if (65 \<le> n \<and> n \<le> 90) \<or> (192 \<le> n \<and> n \<le> 222 \<and> n \<noteq> 215)
                  then char_of (n + 32) else c) str"

text \<open>
  \<^verbatim>\<open>GET /api/vehicles\<close>: the vehicles in insertion order, filtered; of the summary only
  the total is kept (the per-manufacturer, per-fleet and per-status counts are derived
  from the same list).
\<close>

definition listVehicles :: handler where
  "listVehicles p e r s =
     (let l0 = map snd (vehicles s);
          l1 = (case r_query r ''manufacturer'' of
                  None \<Rightarrow> l0
                | Some m \<Rightarrow> if m = [] then l0
                            else filter (\<lambda>v. toLowerCase (manufacturer v) = toLowerCase m) l0);
          l2 = (case r_query r ''fleetId'' of
                  None \<Rightarrow> l1
                | Some f \<Rightarrow> if f = [] then l1 else filter (\<lambda>v. fleetId v = f) l1);
          l3 = (case r_query r ''registrationStatus'' of
                  None \<Rightarrow> l2
                | Some st \<Rightarrow> if st = [] then l2 else filter (\<lambda>v. registrationStatus v = st) l2)
      in ((200, VehicleList l3 (length l3)), s))"

definition getVehicle :: handler where
  "getVehicle p e r s =
     (case map_of (vehicles s) p of
        None \<Rightarrow> ((404, Failure ''Vehicle not found''), s)
      | Some vehicle \<Rightarrow> ((200, VehicleData vehicle), s))"

text \<open>
  \<^verbatim>\<open>PUT /api/vehicles/:vin\<close>: \<^verbatim>\<open>Vehicle.update\<close> assigns every key of the body that is
  a property of the vehicle other than \<^verbatim>\<open>vin\<close>, then stamps \<^verbatim>\<open>updatedAt\<close>. The object is
  changed in place: the map keeps its keys and their order. (A body as typed here has no
  \<^verbatim>\<open>createdAt\<close> or \<^verbatim>\<open>updatedAt\<close> key, which \<^verbatim>\<open>update\<close> would assign as well.)
\<close>

definition update_Vehicle :: "env \<Rightarrow> body \<Rightarrow> Vehicle \<Rightarrow> Vehicle" where
  "update_Vehicle e d v =
     v\<lparr>manufacturer := (case b_manufacturer d of None \<Rightarrow> manufacturer v | Some x \<Rightarrow> x),
       model := (case b_model d of None \<Rightarrow> model v | Some x \<Rightarrow> x),
       fleetId := (case b_fleetId d of None \<Rightarrow> fleetId v | Some x \<Rightarrow> x),
       owner := (case b_owner d of None \<Rightarrow> owner v | Some x \<Rightarrow> x),
       registrationStatus :=
         (case b_registrationStatus d of None \<Rightarrow> registrationStatus v | Some x \<Rightarrow> x),
       updatedAt := newDate e 0\<rparr>"

definition updateVehicle :: handler where
  "updateVehicle p e r s =
     (case map_of (vehicles s) p of
        None \<Rightarrow> ((404, Failure ''Vehicle not found''), s)
      | Some vehicle \<Rightarrow>
          (let vehicle' = update_Vehicle e (r_body r) vehicle
           in ((200, VehicleData vehicle'),
               s\<lparr>vehicles := AList.update p vehicle' (vehicles s)\<rparr>)))"

text \<open>
  \<^verbatim>\<open>DELETE /api/vehicles/:vin\<close> removes the vehicle and its telemetry array. It does not
  touch \<^verbatim>\<open>alerts\<close>.
\<close>

definition deleteVehicle :: handler where
  "deleteVehicle p e r s =
     (if \<not> has (vehicles s) p then ((404, Failure ''Vehicle not found''), s)
      else ((200, Done ''Vehicle deleted successfully''),
            s\<lparr>vehicles := AList.delete p (vehicles s),
              telemetryData := AList.delete p (telemetryData s)\<rparr>))"


subsection \<open>Telemetry\<close>

text \<open>
  \<^verbatim>\<open>if (!telemetryData.has(vin)) telemetryData.set(vin, []); telemetryData.get(vin).push(t)\<close>:
  the array of a vehicle grows at its end; a missing entry is created at the end of the map.
\<close>

definition pushTelemetry ::
  "string \<Rightarrow> TelemetryRecord \<Rightarrow> (string \<times> TelemetryRecord list) list
     \<Rightarrow> (string \<times> TelemetryRecord list) list" where
  "pushTelemetry v t td =
     (case map_of td v of
        None \<Rightarrow> AList.update v [t] td
      | Some arr \<Rightarrow> AList.update v (arr @ [t]) td)"

text \<open>\<^verbatim>\<open>POST /api/telemetry/:vin\<close>.\<close>

definition postTelemetry :: handler where
  "postTelemetry p e r s =
     (if \<not> has (vehicles s) p then ((404, Failure ''Vehicle not found''), s)
      else
        (let d = r_body r;
             telemetry = new_TelemetryRecord e 0 p (b_speed d) (b_fuelLevel d)
                           (b_batteryLevel d) (b_location d) (b_engineStatus d);
             td = pushTelemetry p telemetry (telemetryData s);
             (generatedAlerts, al, k) = generateAlerts e 2 telemetry (alerts s)
         in ((201, TelemetryCreated telemetry generatedAlerts),
             s\<lparr>telemetryData := td, alerts := al\<rparr>)))"

text \<open>
  The \<^verbatim>\<open>forEach\<close> of \<^verbatim>\<open>POST /api/telemetry/batch\<close>, with its two accumulators
  \<^verbatim>\<open>results\<close> and \<^verbatim>\<open>allAlerts\<close>, the call counter and the stores.
\<close>

fun batchLoop ::
  "env \<Rightarrow> batch_record list \<Rightarrow> nat \<Rightarrow> state \<Rightarrow> batch_item list \<Rightarrow> Alert list
     \<Rightarrow> batch_item list \<times> Alert list \<times> state" where
  "batchLoop e [] k s results allAlerts = (results, allAlerts, s)"
| "batchLoop e (record # rest) k s results allAlerts =
     (case br_vin record of
        None \<Rightarrow>
          batchLoop e rest k s (results @ [ItemFailed None ''Vehicle not found'']) allAlerts
      | Some v \<Rightarrow>
          if has (vehicles s) v then
            (let telemetry = new_TelemetryRecord e k v (br_speed record) (br_fuelLevel record)
                               (br_batteryLevel record) (br_location record)
                               (br_engineStatus record);
                 td = pushTelemetry v telemetry (telemetryData s);
                 (generatedAlerts, al, k') = generateAlerts e (k + 2) telemetry (alerts s)
             in batchLoop e rest k' (s\<lparr>telemetryData := td, alerts := al\<rparr>)
                  (results @ [ItemOk v telemetry]) (allAlerts @ generatedAlerts))
          else
            batchLoop e rest k s
              (results @ [ItemFailed (Some v) ''Vehicle not found'']) allAlerts)"

definition postTelemetryBatch :: handler where
  "postTelemetryBatch p e r s =
     (case b_records (r_body r) of
        None \<Rightarrow> ((400, Failure ''Records must be an array''), s)
      | Some telemetryRecords \<Rightarrow>
          (let (results, allAlerts, s') = batchLoop e telemetryRecords 0 s [] []
           in ((201, BatchResult results (length allAlerts) allAlerts), s')))"

text \<open>
  \<^verbatim>\<open>a.sort((a, b) => new Date(b.timestamp) - new Date(a.timestamp))\<close>: a stable sort,
  newest first. \<open>sort_key\<close> is a stable insertion sort; the key is the negated timestamp.
\<close>

definition sortNewestFirst :: "TelemetryRecord list \<Rightarrow> TelemetryRecord list" where
  "sortNewestFirst arr = sort_key (\<lambda>t. - timestamp t) arr"

text \<open>
  \<^verbatim>\<open>GET /api/telemetry/:vin\<close>. \<^verbatim>\<open>sort\<close> works in place and returns the same array, so
  the array stored in \<^verbatim>\<open>telemetryData\<close> is reordered; the \<^verbatim>\<open>slice\<close>s copy. When the map
  has no entry for the vehicle the handler sorts a fresh empty array.
\<close>

definition getTelemetryHistory :: handler where
  "getTelemetryHistory p e r s =
     (if \<not> has (vehicles s) p then ((404, Failure ''Vehicle not found''), s)
      else
        (let (vehicleTelemetry, s') =
               (case map_of (telemetryData s) p of
                  None \<Rightarrow> ([], s)
                | Some arr \<Rightarrow>
                    (sortNewestFirst arr,
                     s\<lparr>telemetryData := AList.update p (sortNewestFirst arr) (telemetryData s)\<rparr>));
             limit = r_query r ''limit'';
             offset = r_query r ''offset'';
             result1 = (case offset of
                          None \<Rightarrow> vehicleTelemetry
                        | Some off \<Rightarrow> if off = [] then vehicleTelemetry
                                      else sliceFrom vehicleTelemetry (parseInt off));
             result2 = (case limit of
                          None \<Rightarrow> result1
                        | Some lmt \<Rightarrow> if lmt = [] then result1
                                      else sliceTo result1 (parseInt lmt))
         in ((200, HistoryData result2 (length vehicleTelemetry)), s')))"

text \<open>\<^verbatim>\<open>GET /api/telemetry/:vin/latest\<close>: the last element of the stored array.\<close>

definition getLatestTelemetry :: handler where
  "getLatestTelemetry p e r s =
     (if \<not> has (vehicles s) p then ((404, Failure ''Vehicle not found''), s)
      else
        (let vehicleTelemetry = (case map_of (telemetryData s) p of None \<Rightarrow> [] | Some arr \<Rightarrow> arr)
         in if length vehicleTelemetry > 0
            then ((200, LatestData (last vehicleTelemetry)), s)
            else ((404, Failure ''No telemetry data found for this vehicle''), s)))"

subsection \<open>Alerts\<close>

definition listAlerts :: handler where
  "listAlerts p e r s =
     (let l0 = map snd (alerts s);
          l1 = (case r_query r ''vin'' of
                  None \<Rightarrow> l0 | Some x \<Rightarrow> if x = [] then l0 else filter (\<lambda>a. a_vin a = x) l0);
          l2 = (case r_query r ''type'' of
                  None \<Rightarrow> l1 | Some x \<Rightarrow> if x = [] then l1 else filter (\<lambda>a. a_type a = x) l1);
          l3 = (case r_query r ''severity'' of
                  None \<Rightarrow> l2 | Some x \<Rightarrow> if x = [] then l2 else filter (\<lambda>a. a_severity a = x) l2);
          l4 = (case r_query r ''status'' of
                  None \<Rightarrow> l3 | Some x \<Rightarrow> if x = [] then l3 else filter (\<lambda>a. a_status a = x) l3);
          l5 = sort_key (\<lambda>a. - a_timestamp a) l4
      in ((200, AlertList l5 (length l5)), s))"

definition getAlert :: handler where
  "getAlert p e r s =
     (case map_of (alerts s) p of
        None \<Rightarrow> ((404, Failure ''Alert not found''), s)
      | Some alert \<Rightarrow> ((200, AlertData alert), s))"

text \<open>
  \<^verbatim>\<open>PUT /api/alerts/:alertId\<close>: a truthy \<^verbatim>\<open>status\<close> of the body is written into the
  stored alert, whatever it is and whatever the alert's status was.
\<close>

definition updateAlert :: handler where
  "updateAlert p e r s =
     (case map_of (alerts s) p of
        None \<Rightarrow> ((404, Failure ''Alert not found''), s)
      | Some alert \<Rightarrow>
          (case b_status (r_body r) of
             None \<Rightarrow> ((200, AlertData alert), s)
           | Some st \<Rightarrow>
               if st = [] then ((200, AlertData alert), s)
               else ((200, AlertData (alert\<lparr>a_status := st\<rparr>)),
                     s\<lparr>alerts := AList.update p (alert\<lparr>a_status := st\<rparr>) (alerts s)\<rparr>)))"

definition health :: handler where
  "health p e r s =
     ((200, Health (newDate e 0) (length (vehicles s)) (length (alerts s))
              (foldl (\<lambda>sum records. sum + length records) 0 (map snd (telemetryData s)))), s)"

section \<open>Routing\<close>

text \<open>
  Express (version 4, default settings) walks the routes in the order in which they were
  registered. A route's path is compiled to a regular expression that is matched against
  the whole path, ignoring the case of letters and allowing one slash after the end; a
  parameter \<^verbatim>\<open>:name\<close> matches one non-empty segment. Then the parameter is decoded, and if
  that throws, the error goes to the error middleware registered after the routes, which
  answers 500. Only then is the method looked at: a route that does not handle it is
  passed over. \<open>HEAD\<close> is handled by the routes for \<open>GET\<close>. The first route left runs its
  handler, and no handler passes the request on. A request that no route takes ends at
  the catch-all registered last, which answers 404; so does a request with the method
  \<^verbatim>\<open>OPTIONS\<close>, which no route handles. The requests of the model are those whose body
  \<^verbatim>\<open>express.json()\<close> has parsed; a body it cannot parse never reaches a route and leaves
  the stores as they are.
\<close>

datatype pseg = L string | P

text \<open>
  The literals of the routes are ASCII letters; such a letter matches itself and its
  other case, and nothing else.
\<close>

definition upperAscii :: "nat \<Rightarrow> nat" where
  "upperAscii n = (if 97 \<le> n \<and> n \<le> 122 then n - 32 else n)"

definition sameLiteral :: "string \<Rightarrow> string \<Rightarrow> bool" where
  "sameLiteral l x =
     (map (\<lambda>c. upperAscii (of_char c)) l = map (\<lambda>c. upperAscii (of_char c)) x)"

datatype match = NoMatch | BadParam | Match string

fun matchSegs :: "pseg list \<Rightarrow> segment list \<Rightarrow> match" where
  "matchSegs [] [] = Match []"
| "matchSegs (L l # ps) (x # xs) = (if sameLiteral l (raw x) then matchSegs ps xs else NoMatch)"
| "matchSegs (P # ps) (x # xs) =
     (if raw x = [] then NoMatch
      else (case matchSegs ps xs of
              Match _ \<Rightarrow> (case decoded x of None \<Rightarrow> BadParam | Some p \<Rightarrow> Match p)
            | m \<Rightarrow> m))"
| "matchSegs _ _ = NoMatch"

text \<open>The path as it is, or without the empty segment that a final slash leaves.\<close>

definition matchPath :: "pseg list \<Rightarrow> segment list \<Rightarrow> match" where
  "matchPath pat path =
     (case matchSegs pat path of
        NoMatch \<Rightarrow>
          if path \<noteq> [] \<and> raw (last path) = [] then matchSegs pat (butlast path) else NoMatch
      | m \<Rightarrow> m)"

definition handles :: "verb \<Rightarrow> verb \<Rightarrow> bool" where
  "handles m v = (v = m \<or> (v = HEAD \<and> m = GET))"

definition routes :: "(verb \<times> pseg list \<times> handler) list" where
  "routes =
     [(POST, [L ''api'', L ''vehicles''], createVehicle),
      (GET, [L ''api'', L ''vehicles''], listVehicles),
      (GET, [L ''api'', L ''vehicles'', P], getVehicle),
      (PUT, [L ''api'', L ''vehicles'', P], updateVehicle),
      (DELETE, [L ''api'', L ''vehicles'', P], deleteVehicle),
      (POST, [L ''api'', L ''telemetry'', P], postTelemetry),
      (POST, [L ''api'', L ''telemetry'', L ''batch''], postTelemetryBatch),
      (GET, [L ''api'', L ''telemetry'', P], getTelemetryHistory),
      (GET, [L ''api'', L ''telemetry'', P, L ''latest''], getLatestTelemetry),
      (GET, [L ''api'', L ''alerts''], listAlerts),
      (GET, [L ''api'', L ''alerts'', P], getAlert),
      (PUT, [L ''api'', L ''alerts'', P], updateAlert),
      (GET, [L ''api'', L ''health''], health)]"

fun dispatch ::
  "(verb \<times> pseg list \<times> handler) list \<Rightarrow> env \<Rightarrow> request \<Rightarrow> state \<Rightarrow> response \<times> state" where
  "dispatch [] e r s = ((404, Failure ''Route not found''), s)"
| "dispatch ((m, pat, h) # rest) e r s =
     (case matchPath pat (r_path r) of
        NoMatch \<Rightarrow> dispatch rest e r s
      | BadParam \<Rightarrow> ((500, Failure ''Something went wrong!''), s)
      | Match p \<Rightarrow> if handles m (r_method r) then h p e r s else dispatch rest e r s)"

definition app :: "env \<Rightarrow> request \<Rightarrow> state \<Rightarrow> response \<times> state" where
  "app e r s = dispatch routes e r s"

text \<open>Serving a sequence of requests, each with its environment, one after the other.\<close>

fun serve :: "(env \<times> request) list \<Rightarrow> state \<Rightarrow> state" where
  "serve [] s = s"
| "serve ((e, r) # rest) s = serve rest (snd (app e r s))"


section \<open>Notions used to state the properties\<close>

text \<open>The array stored for a vehicle, empty when the map has no entry.\<close>

definition stored :: "state \<Rightarrow> string \<Rightarrow> TelemetryRecord list" where
  "stored s v = (case map_of (telemetryData s) v of None \<Rightarrow> [] | Some arr \<Rightarrow> arr)"

text \<open>
  A single-reading submission for vehicle \<open>v\<close>, and the reading the handler builds from it.
\<close>

definition submission :: "string \<Rightarrow> body \<Rightarrow> request" where
  "submission v d =
     \<lparr>r_method = POST, r_path = map plain [''api'', ''telemetry'', v], r_query = (\<lambda>_. None),
      r_body = d\<rparr>"

definition readingOf :: "env \<Rightarrow> string \<Rightarrow> body \<Rightarrow> TelemetryRecord" where
  "readingOf e v d =
     new_TelemetryRecord e 0 v (b_speed d) (b_fuelLevel d) (b_batteryLevel d)
       (b_location d) (b_engineStatus d)"

text \<open>
  Appending a sequence of submissions \<open>(environment, vehicle, body)\<close>, for any vehicles in
  any interleaving, and the readings among them that are for vehicle \<open>v\<close>, in order.
\<close>

fun appendAll :: "(env \<times> string \<times> body) list \<Rightarrow> state \<Rightarrow> state" where
  "appendAll [] s = s"
| "appendAll ((e, w, d) # rest) s = appendAll rest (snd (postTelemetry w e (submission w d) s))"

definition readingsFor :: "string \<Rightarrow> (env \<times> string \<times> body) list \<Rightarrow> TelemetryRecord list" where
  "readingsFor v subs = map (\<lambda>(e, w, d). readingOf e w d) (filter (\<lambda>(e, w, d). w = v) subs)"

text \<open>Newest first: the timestamps never increase along the list.\<close>

definition newestFirst :: "TelemetryRecord list \<Rightarrow> bool" where
  "newestFirst rs = sorted_wrt (\<lambda>a b. timestamp a \<ge> timestamp b) rs"

text \<open>
  The decimal numeral of a count, digit by digit: \<open>decimal 0 = ''0''\<close>,
  \<open>decimal 7 = ''7''\<close>, \<open>decimal 120 = ''120''\<close>.
\<close>

fun digitsOf :: "nat \<Rightarrow> nat list" where
  "digitsOf n = (if n < 10 then [n] else digitsOf (n div 10) @ [n mod 10])"

definition digitChar :: "nat \<Rightarrow> char" where
  "digitChar d = char_of (48 + d)"

definition decimal :: "nat \<Rightarrow> string" where
  "decimal n = map digitChar (digitsOf n)"

text \<open>
  What a query parameter says: no count (\<open>None\<close>) when it is absent or empty, the count
  \<open>n\<close> when its text is the decimal numeral of \<open>n\<close>. \<open>page\<close> skips \<open>offset\<close> elements from
  the front and keeps at most \<open>limit\<close> of the rest; an absent bound does nothing.
\<close>

definition denotes :: "string option \<Rightarrow> nat option \<Rightarrow> bool" where
  "denotes q c =
     (case c of
        None \<Rightarrow> q = None \<or> q = Some []
      | Some n \<Rightarrow> q = Some (decimal n))"

definition page :: "nat option \<Rightarrow> nat option \<Rightarrow> 'a list \<Rightarrow> 'a list" where
  "page offset limit xs =
     (let ys = (case offset of None \<Rightarrow> xs | Some n \<Rightarrow> drop n xs)
      in case limit of None \<Rightarrow> ys | Some m \<Rightarrow> take m ys)"

text \<open>
  The rule engine of section 4.2 of the specification, written from its words: the three
  thresholds are taken from a configuration whose defaults are 80, 15 and 15. It is
  compared with \<open>generateAlerts\<close> below.
\<close>

record config =
  speedLimit :: real
  lowFuelThreshold :: real
  lowBatteryThreshold :: real

definition defaultConfig :: config where
  "defaultConfig = \<lparr>speedLimit = 80, lowFuelThreshold = 15, lowBatteryThreshold = 15\<rparr>"

definition present :: "jsval \<Rightarrow> bool" where
  "present v = (v \<noteq> Null \<and> v \<noteq> Undefined)"

definition evaluateConfigured :: "config \<Rightarrow> TelemetryRecord \<Rightarrow> (string \<times> string) list" where
  "evaluateConfigured cfg t =
     (if js_gt (speed t) (speedLimit cfg) then [(''SPEED_VIOLATION'', ''High'')] else []) @
     (if present (fuelLevel t) \<and> js_lt (fuelLevel t) (lowFuelThreshold cfg)
        then [(''LOW_FUEL'', ''Medium'')] else []) @
     (if present (batteryLevel t) \<and> js_lt (batteryLevel t) (lowBatteryThreshold cfg)
        then [(''LOW_BATTERY'', ''Medium'')] else [])"

text \<open>
  What an alert says, its identifier, timestamp and status apart. An alert is produced by
  a reading when it says what one of the alerts that \<open>generateAlerts\<close> builds from the
  reading says (which does not depend on the environment, taken here to be \<open>nullEnv\<close>).
  A state has no orphan alert when every alert of the ledger is produced by some reading
  stored for the vehicle it names.
\<close>

definition content :: "Alert \<Rightarrow> string \<times> string \<times> piece list \<times> string" where
  "content a = (a_vin a, a_type a, a_message a, a_severity a)"

definition nullEnv :: env where
  "nullEnv = \<lparr>uuidv4 = (\<lambda>k. []), newDate = (\<lambda>k. 0)\<rparr>"

definition produced :: "TelemetryRecord \<Rightarrow> Alert \<Rightarrow> bool" where
  "produced t a = (content a \<in> set (map content (fst (generateAlerts nullEnv 0 t []))))"

definition noOrphans :: "state \<Rightarrow> bool" where
  "noOrphans s = list_all (\<lambda>(i, a). list_ex (\<lambda>t. produced t a) (stored s (a_vin a))) (alerts s)"

text \<open>The same for the alerts that name one vehicle \<open>v\<close>.\<close>

definition noOrphansFor :: "string \<Rightarrow> state \<Rightarrow> bool" where
  "noOrphansFor v s =
     list_all (\<lambda>(i, a). a_vin a = v \<longrightarrow> list_ex (\<lambda>t. produced t a) (stored s v)) (alerts s)"

text \<open>
  Relative to an earlier state \<open>s0\<close>: an alert is inherited when the ledger of \<open>s0\<close> holds
  an alert that says the same, and a state has no new orphan for \<open>v\<close> when every alert
  that names \<open>v\<close> is inherited or produced by a reading stored for \<open>v\<close>.
\<close>

definition inherited :: "state \<Rightarrow> Alert \<Rightarrow> bool" where
  "inherited s0 a = list_ex (\<lambda>(j, b). content b = content a) (alerts s0)"

definition noNewOrphansFor :: "state \<Rightarrow> string \<Rightarrow> state \<Rightarrow> bool" where
  "noNewOrphansFor s0 v s =
     list_all (\<lambda>(i, a). a_vin a = v \<longrightarrow>
                 inherited s0 a \<or> list_ex (\<lambda>t. produced t a) (stored s v)) (alerts s)"

text \<open>
  A vehicle that is not registered has no stored reading; with it, the invariant behind
  the absence of new orphans.
\<close>

definition unknownEmpty :: "string \<Rightarrow> state \<Rightarrow> bool" where
  "unknownEmpty v s = (has (vehicles s) v \<or> stored s v = [])"

definition consistentFor :: "state \<Rightarrow> string \<Rightarrow> state \<Rightarrow> bool" where
  "consistentFor s0 v s = (noNewOrphansFor s0 v s \<and> unknownEmpty v s)"

text \<open>The vehicle an item of a batch response is about, and whether the item is a success.\<close>

fun itemVin :: "batch_item \<Rightarrow> string option" where
  "itemVin (ItemOk v t) = Some v"
| "itemVin (ItemFailed v m) = v"

fun itemOk :: "batch_item \<Rightarrow> bool" where
  "itemOk (ItemOk v t) = True"
| "itemOk (ItemFailed v m) = False"

definition known :: "state \<Rightarrow> string option \<Rightarrow> bool" where
  "known s v = (case v of None \<Rightarrow> False | Some w \<Rightarrow> has (vehicles s) w)"

text \<open>
  The request deletes vehicle \<open>v\<close>: its method is \<open>DELETE\<close> and the route
  \<^verbatim>\<open>/api/vehicles/:vin\<close> matches its path with \<open>v\<close> as the parameter.
\<close>

definition deletes :: "string \<Rightarrow> request \<Rightarrow> bool" where
  "deletes v r =
     (r_method r = DELETE \<and> matchPath [L ''api'', L ''vehicles'', P] (r_path r) = Match v)"

text \<open>Every registered VIN has passed \<open>validateVIN\<close>: it has 17 characters.\<close>

definition vinsValid :: "state \<Rightarrow> bool" where
  "vinsValid s = list_all (\<lambda>(v, x). length v = 17) (vehicles s)"

section \<open>Analytics: total distance\<close>

text \<open>
  Modelled from the spec: the Analytics Aggregator's \<^verbatim>\<open>totalDistance\<close> of section 4.4.
  The sources contain no analytics code and \<^verbatim>\<open>TelemetryRecord\<close> carries no odometer, so
  the operation is written from the specification's words. A reading is its timestamp
  and its odometer value (what a reading without odometer contributes is not specified,
  and such readings are not represented).
\<close>

type_synonym odoReading = "int \<times> real"

text \<open>
  Modelled from the spec: "sum of positive odometer deltas between consecutive readings;
  negative deltas are skipped, not subtracted".
\<close>

fun positiveDeltas :: "real list \<Rightarrow> real" where
  "positiveDeltas (a # b # rest) = (if b - a > 0 then b - a else 0) + positiveDeltas (b # rest)"
| "positiveDeltas _ = 0"

text \<open>
  Modelled from the spec: "in-window readings ordered by timestamp", a reading being in
  the window when its timestamp is at or after the window's start.
\<close>

definition inWindow :: "int \<Rightarrow> odoReading list \<Rightarrow> odoReading list" where
  "inWindow since rs = sort_key fst (filter (\<lambda>r. fst r \<ge> since) rs)"

text \<open>Modelled from the spec: the distance of one vehicle, given all its readings.\<close>

definition vehicleDistance :: "int \<Rightarrow> odoReading list \<Rightarrow> real" where
  "vehicleDistance since rs = positiveDeltas (map snd (inWindow since rs))"

text \<open>Modelled from the spec: "distances are summed across the fleet".\<close>

definition totalDistance :: "int \<Rightarrow> odoReading list list \<Rightarrow> real" where
  "totalDistance since fleet = sum_list (map (vehicleDistance since) fleet)"

section \<open>Sample inputs\<close>

text \<open>Two well-formed VINs, environments, bodies and requests used in the examples.\<close>

definition vinA :: string where "vinA = ''1HGCM82633A123456''"

definition vinB :: string where "vinB = ''5YJSA1E26HF000337''"

definition vinC :: string where "vinC = ''WBA3A5C51CF256651''"

text \<open>An environment whose clock reads \<open>t\<close> and whose identifiers start with \<open>tag\<close>.\<close>

definition sampleEnv :: "string \<Rightarrow> int \<Rightarrow> env" where
  "sampleEnv tag t = \<lparr>uuidv4 = (\<lambda>k. tag @ replicate k (CHR ''+'')), newDate = (\<lambda>k. t)\<rparr>"

definition emptyBody :: body where
  "emptyBody =
     \<lparr>b_vin = None, b_manufacturer = None, b_model = None, b_fleetId = None, b_owner = None,
      b_registrationStatus = None, b_speed = Undefined, b_fuelLevel = Undefined,
      b_batteryLevel = Undefined, b_location = JUndefined, b_engineStatus = JUndefined,
      b_records = None, b_status = None\<rparr>"

definition vehicleBody :: "string \<Rightarrow> body" where
  "vehicleBody v =
     emptyBody\<lparr>b_vin := Some v, b_manufacturer := Some ''Tesla'', b_model := Some ''Model S'',
               b_fleetId := Some ''Corporate'', b_owner := Some ''John Doe''\<rparr>"

definition telemetryBody :: "jsval \<Rightarrow> jsval \<Rightarrow> jsval \<Rightarrow> body" where
  "telemetryBody sp fl bl = emptyBody\<lparr>b_speed := sp, b_fuelLevel := fl, b_batteryLevel := bl\<rparr>"

definition req :: "verb \<Rightarrow> string list \<Rightarrow> body \<Rightarrow> request" where
  "req m path d =
     \<lparr>r_method = m, r_path = map plain path, r_query = (\<lambda>_. None), r_body = d\<rparr>"

definition createReq :: "string \<Rightarrow> request" where
  "createReq v = req POST [''api'', ''vehicles''] (vehicleBody v)"

definition deleteReq :: "string \<Rightarrow> request" where
  "deleteReq v = req DELETE [''api'', ''vehicles'', v] emptyBody"

definition ingestReq :: "string \<Rightarrow> jsval \<Rightarrow> jsval \<Rightarrow> jsval \<Rightarrow> request" where
  "ingestReq v sp fl bl = req POST [''api'', ''telemetry'', v] (telemetryBody sp fl bl)"

text \<open>The stores after registering \<open>vinA\<close> and \<open>vinB\<close>.\<close>

definition twoVehicles :: state where
  "twoVehicles = serve [(sampleEnv ''a'' 1, createReq vinA), (sampleEnv ''b'' 2, createReq vinB)] init"

definition reading :: "jsval \<Rightarrow> jsval \<Rightarrow> jsval \<Rightarrow> TelemetryRecord" where
  "reading sp fl bl = readingOf (sampleEnv ''r'' 5) vinA (telemetryBody sp fl bl)"


text \<open>
  Three submissions, two for \<open>vinA\<close> with one for \<open>vinB\<close> between them, and a history
  query for \<open>vinA\<close> with \<^verbatim>\<open>offset=1&limit=1\<close>.
\<close>

definition interleaved :: "(env \<times> string \<times> body) list" where
  "interleaved =
     [(sampleEnv ''x'' 10, vinA, telemetryBody (Num 85) Null Null),
      (sampleEnv ''y'' 30, vinB, emptyBody),
      (sampleEnv ''z'' 20, vinA, emptyBody)]"

definition historyQuery :: request where
  "historyQuery =
     \<lparr>r_method = GET, r_path = map plain [''api'', ''telemetry'', vinA],
      r_query = [''offset'' \<mapsto> ''1'', ''limit'' \<mapsto> ''1''], r_body = emptyBody\<rparr>"

definition plainQuery :: request where
  "plainQuery = req GET [''api'', ''telemetry'', vinA] emptyBody"

text \<open>
  The stores after \<open>vinA\<close> reported a speed of 85: one reading and one alert, whose
  identifier is \<open>''t++''\<close>.
\<close>

definition withAlert :: state where
  "withAlert = serve [(sampleEnv ''t'' 10, ingestReq vinA (Num 85) (Num 50) (Num 50))] twoVehicles"

text \<open>
  Three runs. In \<open>orphanRun\<close>, \<open>vinA\<close> is registered, reports a speed of 85 and is
  deleted. In \<open>laterRun\<close>, \<open>vinA\<close> is registered again and reports a speed of 90 with a
  fuel level of 10. \<open>shoutedRun\<close> is \<open>orphanRun\<close> with the deletion sent to
  \<^verbatim>\<open>/API/Vehicles/<vin>/\<close>.
\<close>

definition orphanRun :: "(env \<times> request) list" where
  "orphanRun =
     [(sampleEnv ''a'' 1, createReq vinA),
      (sampleEnv ''t'' 10, ingestReq vinA (Num 85) (Num 50) (Num 50)),
      (sampleEnv ''d'' 20, deleteReq vinA)]"


definition shoutedRun :: "(env \<times> request) list" where
  "shoutedRun =
     [(sampleEnv ''a'' 1, createReq vinA),
      (sampleEnv ''t'' 10, ingestReq vinA (Num 85) (Num 50) (Num 50)),
      (sampleEnv ''d'' 20, req DELETE [''API'', ''Vehicles'', vinA, []] emptyBody)]"

definition statusReq :: "string \<Rightarrow> string \<Rightarrow> request" where
  "statusReq i st = req PUT [''api'', ''alerts'', i] (emptyBody\<lparr>b_status := Some st\<rparr>)"

text \<open>
  A batch of three records: \<open>vinA\<close> too fast, the unregistered \<open>vinC\<close>, and \<open>vinB\<close> low on
  fuel.
\<close>

definition batchRecord :: "string \<Rightarrow> jsval \<Rightarrow> jsval \<Rightarrow> jsval \<Rightarrow> batch_record" where
  "batchRecord v sp fl bl =
     \<lparr>br_vin = Some v, br_speed = sp, br_fuelLevel = fl, br_batteryLevel = bl,
      br_location = JUndefined, br_engineStatus = JUndefined\<rparr>"

definition batchReq :: request where
  "batchReq =
     req POST [''api'', ''telemetry'', ''batch'']
       (emptyBody\<lparr>b_records :=
          Some [batchRecord vinA (Num 85) (Num 50) (Num 50),
                batchRecord vinC (Num 85) (Num 10) (Num 50),
                batchRecord vinB (Num 30) (Num 10) Null]\<rparr>)"

section \<open>Properties of the maps and the sample inputs\<close>

lemma has_keys: "has m k = (k \<in> fst ` set m)"
  by (simp add: has_def map_of_eq_None_iff)

lemma has_update: "has (AList.update k x m) j = (j = k \<or> has m j)"
  by (simp add: has_def update_conv')

lemma has_delete: "has (AList.delete k m) j = (j \<noteq> k \<and> has m j)"
  by (simp add: has_def delete_conv')

lemma set_update_cases: "x \<in> set (AList.update k v al) \<Longrightarrow> x = (k, v) \<or> x \<in> set al"
  by (induction al) (auto split: if_splits)

lemma stored_eq: "telemetryData s' = telemetryData s \<Longrightarrow> stored s' v = stored s v"
  by (simp add: stored_def)

lemma stored_update:
  "telemetryData s' = AList.update p x (telemetryData s) \<Longrightarrow>
     stored s' v = (if v = p then x else stored s v)"
  by (simp add: stored_def update_conv')

lemma stored_delete:
  "telemetryData s' = AList.delete p (telemetryData s) \<Longrightarrow>
     stored s' v = (if v = p then [] else stored s v)"
  by (simp add: stored_def delete_conv')

lemma stored_push:
  "telemetryData s' = pushTelemetry p t (telemetryData s) \<Longrightarrow>
     stored s' v = (if v = p then stored s v @ [t] else stored s v)"
  by (simp add: stored_def pushTelemetry_def update_conv' split: option.splits)

lemmas routing_defs =
  app_def routes_def matchPath_def handles_def sameLiteral_def upperAscii_def plain_def

lemmas sample_defs =
  routing_defs createReq_def deleteReq_def ingestReq_def req_def vehicleBody_def
  telemetryBody_def emptyBody_def createVehicle_def deleteVehicle_def postTelemetry_def
  pushTelemetry_def generateAlerts_def new_TelemetryRecord_def new_Alert_def
  validateVehicleData_def validateVIN_def truthy_def has_def init_def vinA_def vinB_def
  vinC_def sampleEnv_def Let_def numeral_2_eq_2

lemma twoVehicles_state:
  "twoVehicles =
     \<lparr>vehicles =
        [(vinA, \<lparr>vin = vinA, manufacturer = ''Tesla'', model = ''Model S'',
                 fleetId = ''Corporate'', owner = ''John Doe'', registrationStatus = ''Active'',
                 createdAt = 1, updatedAt = 1\<rparr>),
         (vinB, \<lparr>vin = vinB, manufacturer = ''Tesla'', model = ''Model S'',
                 fleetId = ''Corporate'', owner = ''John Doe'', registrationStatus = ''Active'',
                 createdAt = 2, updatedAt = 2\<rparr>)],
      telemetryData = [(vinA, []), (vinB, [])], alerts = []\<rparr>"
  by (simp add: twoVehicles_def sample_defs)

lemma twoVehicles_has: "has (vehicles twoVehicles) v = (v = vinA \<or> v = vinB)"
  by (auto simp: twoVehicles_state has_def)

lemma twoVehicles_alerts: "alerts twoVehicles = []"
  by (simp add: twoVehicles_state)

lemma twoVehicles_stored: "stored twoVehicles vinA = []"
  by (simp add: stored_def twoVehicles_state)

lemma withAlert_alerts:
  "alerts withAlert =
     [(''t++'', new_Alert (sampleEnv ''t'' 10) 2 vinA ''SPEED_VIOLATION''
                  [Lit ''Vehicle '', Lit vinA, Lit '' exceeded speed limit: '', Val (Num 85),
                   Lit '' km/h''] ''High'')]"
  by (simp add: withAlert_def twoVehicles_state sample_defs)

lemma reading_fields [simp]:
  "speed (reading sp fl bl) = sp" "fuelLevel (reading sp fl bl) = fl"
  "batteryLevel (reading sp fl bl) = bl" "t_vin (reading sp fl bl) = vinA"
  by (simp_all add: reading_def readingOf_def new_TelemetryRecord_def telemetryBody_def
      emptyBody_def)

lemma readingOf_timestamp [simp]: "timestamp (readingOf (sampleEnv tag t) v d) = t"
  by (simp add: readingOf_def new_TelemetryRecord_def sampleEnv_def)

section \<open>The rule engine\<close>

lemma kinds_generateAlerts:
  "kinds (fst (generateAlerts e k t al)) =
     (if speedRule t then [(''SPEED_VIOLATION'', ''High'')] else []) @
     (if fuelRule t then [(''LOW_FUEL'', ''Medium'')] else []) @
     (if batteryRule t then [(''LOW_BATTERY'', ''Medium'')] else [])"
  by (simp add: generateAlerts_def kinds_def new_Alert_def Let_def
      speedRule_def fuelRule_def batteryRule_def)

text \<open>
  Claim C3. A reading with speed 85, fuel level 50 and battery level 50 produces exactly
  one alert, a speed violation of severity High. In general the three rules fire
  independently of each other: the alerts of a reading are, in this order, a speed
  violation if the speed rule holds, a low-fuel alert if the fuel rule holds and a
  low-battery alert if the battery rule holds; a reading with speed 90, fuel level 10 and
  battery level 5 produces all three.
\<close>

theorem rules_fire_independently:
  "(speed t = Num 85 \<and> fuelLevel t = Num 50 \<and> batteryLevel t = Num 50 \<longrightarrow>
      kinds (fst (generateAlerts e k t al)) = [(''SPEED_VIOLATION'', ''High'')]) \<and>
   kinds (fst (generateAlerts e k t al)) =
     (if speedRule t then [(''SPEED_VIOLATION'', ''High'')] else []) @
     (if fuelRule t then [(''LOW_FUEL'', ''Medium'')] else []) @
     (if batteryRule t then [(''LOW_BATTERY'', ''Medium'')] else []) \<and>
   (speed t = Num 90 \<and> fuelLevel t = Num 10 \<and> batteryLevel t = Num 5 \<longrightarrow>
      kinds (fst (generateAlerts e k t al)) =
        [(''SPEED_VIOLATION'', ''High''), (''LOW_FUEL'', ''Medium''), (''LOW_BATTERY'', ''Medium'')])"
  by (simp add: kinds_generateAlerts speedRule_def fuelRule_def batteryRule_def)

theorem rules_fire_independently_witness:
  "speed (reading (Num 85) (Num 50) (Num 50)) = Num 85 \<and>
   fuelLevel (reading (Num 85) (Num 50) (Num 50)) = Num 50 \<and>
   batteryLevel (reading (Num 85) (Num 50) (Num 50)) = Num 50 \<and>
   kinds (fst (generateAlerts (sampleEnv ''g'' 6) 2 (reading (Num 85) (Num 50) (Num 50)) [])) =
     [(''SPEED_VIOLATION'', ''High'')] \<and>
   speed (reading (Num 90) (Num 10) (Num 5)) = Num 90 \<and>
   fuelLevel (reading (Num 90) (Num 10) (Num 5)) = Num 10 \<and>
   batteryLevel (reading (Num 90) (Num 10) (Num 5)) = Num 5 \<and>
   kinds (fst (generateAlerts (sampleEnv ''g'' 6) 2 (reading (Num 90) (Num 10) (Num 5)) [])) =
     [(''SPEED_VIOLATION'', ''High''), (''LOW_FUEL'', ''Medium''), (''LOW_BATTERY'', ''Medium'')]"
proof -
  have a: "speed (reading (Num 85) (Num 50) (Num 50)) = Num 85 \<and>
           fuelLevel (reading (Num 85) (Num 50) (Num 50)) = Num 50 \<and>
           batteryLevel (reading (Num 85) (Num 50) (Num 50)) = Num 50"
    by simp
  have b: "speed (reading (Num 90) (Num 10) (Num 5)) = Num 90 \<and>
           fuelLevel (reading (Num 90) (Num 10) (Num 5)) = Num 10 \<and>
           batteryLevel (reading (Num 90) (Num 10) (Num 5)) = Num 5"
    by simp
  from a rules_fire_independently
         [of "reading (Num 85) (Num 50) (Num 50)" "sampleEnv ''g'' 6" 2 "[]"]
  have c: "kinds (fst (generateAlerts (sampleEnv ''g'' 6) 2
                         (reading (Num 85) (Num 50) (Num 50)) [])) =
             [(''SPEED_VIOLATION'', ''High'')]"
    by blast
  from b rules_fire_independently
         [of "reading (Num 90) (Num 10) (Num 5)" "sampleEnv ''g'' 6" 2 "[]"]
  have d: "kinds (fst (generateAlerts (sampleEnv ''g'' 6) 2
                         (reading (Num 90) (Num 10) (Num 5)) [])) =
             [(''SPEED_VIOLATION'', ''High''), (''LOW_FUEL'', ''Medium''),
              (''LOW_BATTERY'', ''Medium'')]"
    by blast
  from a b c d show ?thesis by blast
qed

text \<open>
  Claim C4. When fuel level and battery level are both absent (\<^verbatim>\<open>null\<close> or missing),
  no low-fuel and no low-battery alert is produced, whatever the speed. A reading with
  fuel level 10, no battery level and speed 30 produces exactly one alert, a low-fuel
  alert.
\<close>

theorem absent_levels_raise_nothing:
  "(fuelLevel t \<in> {Null, Undefined} \<and> batteryLevel t \<in> {Null, Undefined} \<longrightarrow>
      (\<forall>a \<in> set (fst (generateAlerts e k t al)).
         a_type a \<noteq> ''LOW_FUEL'' \<and> a_type a \<noteq> ''LOW_BATTERY'')) \<and>
   (fuelLevel t = Num 10 \<and> batteryLevel t \<in> {Null, Undefined} \<and> speed t = Num 30 \<longrightarrow>
      kinds (fst (generateAlerts e k t al)) = [(''LOW_FUEL'', ''Medium'')])"
proof (intro conjI impI)
  assume h: "fuelLevel t \<in> {Null, Undefined} \<and> batteryLevel t \<in> {Null, Undefined}"
  then have "\<not> fuelRule t" "\<not> batteryRule t"
    by (auto simp: fuelRule_def batteryRule_def)
  then have "kinds (fst (generateAlerts e k t al)) =
               (if speedRule t then [(''SPEED_VIOLATION'', ''High'')] else [])"
    by (simp add: kinds_generateAlerts)
  then have "set (map a_type (fst (generateAlerts e k t al))) \<subseteq> {''SPEED_VIOLATION''}"
    by (auto simp: kinds_def map_eq_Cons_conv split: if_splits)
  then show "\<forall>a \<in> set (fst (generateAlerts e k t al)).
               a_type a \<noteq> ''LOW_FUEL'' \<and> a_type a \<noteq> ''LOW_BATTERY''"
    by auto
next
  assume "fuelLevel t = Num 10 \<and> batteryLevel t \<in> {Null, Undefined} \<and> speed t = Num 30"
  then show "kinds (fst (generateAlerts e k t al)) = [(''LOW_FUEL'', ''Medium'')]"
    by (auto simp: kinds_generateAlerts speedRule_def fuelRule_def batteryRule_def)
qed

theorem absent_levels_raise_nothing_witness:
  "fuelLevel (reading (Num 120) Null Undefined) \<in> {Null, Undefined} \<and>
   batteryLevel (reading (Num 120) Null Undefined) \<in> {Null, Undefined} \<and>
   list_all (\<lambda>a. a_type a \<noteq> ''LOW_FUEL'' \<and> a_type a \<noteq> ''LOW_BATTERY'')
     (fst (generateAlerts (sampleEnv ''g'' 6) 2 (reading (Num 120) Null Undefined) [])) \<and>
   fuelLevel (reading (Num 30) (Num 10) Null) = Num 10 \<and>
   batteryLevel (reading (Num 30) (Num 10) Null) \<in> {Null, Undefined} \<and>
   speed (reading (Num 30) (Num 10) Null) = Num 30 \<and>
   kinds (fst (generateAlerts (sampleEnv ''g'' 6) 2 (reading (Num 30) (Num 10) Null) [])) =
     [(''LOW_FUEL'', ''Medium'')]"
  using absent_levels_raise_nothing
          [of "reading (Num 120) Null Undefined" "sampleEnv ''g'' 6" 2 "[]"]
        absent_levels_raise_nothing
          [of "reading (Num 30) (Num 10) Null" "sampleEnv ''g'' 6" 2 "[]"]
  by (simp add: list_all_iff)

text \<open>
  Claim C7, as the specification states it, asks for thresholds taken from a
  configuration. \<open>generateAlerts\<close> takes none: an engine configured with a speed limit of
  100 raises nothing for a speed of 85, and the code raises a speed violation.
\<close>

theorem thresholds_not_configurable:
  "kinds (fst (generateAlerts (sampleEnv ''g'' 6) 2 (reading (Num 85) (Num 50) (Num 50)) [])) \<noteq>
     evaluateConfigured \<lparr>speedLimit = 100, lowFuelThreshold = 15, lowBatteryThreshold = 15\<rparr>
       (reading (Num 85) (Num 50) (Num 50))"
  by (simp add: kinds_generateAlerts evaluateConfigured_def speedRule_def fuelRule_def
      batteryRule_def)

text \<open>
  Claim C7, amended. The thresholds are the constants 80, 15 and 15 written in
  \<open>generateAlerts\<close>, which takes no configuration: for every reading its alerts are those
  of the specified engine under the default configuration.
\<close>

theorem thresholds_are_the_defaults:
  "kinds (fst (generateAlerts e k t al)) = evaluateConfigured defaultConfig t"
proof -
  have "(fuelLevel t \<noteq> Null \<and> js_lt (fuelLevel t) 15) =
        (present (fuelLevel t) \<and> js_lt (fuelLevel t) 15)"
    by (cases "fuelLevel t") (simp_all add: present_def)
  moreover have "(batteryLevel t \<noteq> Null \<and> js_lt (batteryLevel t) 15) =
        (present (batteryLevel t) \<and> js_lt (batteryLevel t) 15)"
    by (cases "batteryLevel t") (simp_all add: present_def)
  ultimately show ?thesis
    by (simp add: kinds_generateAlerts evaluateConfigured_def defaultConfig_def speedRule_def
        fuelRule_def batteryRule_def)
qed

section \<open>The telemetry store\<close>

lemma postTelemetry_state:
  "has (vehicles s) w \<Longrightarrow>
     snd (postTelemetry w e r s) =
       s\<lparr>telemetryData := pushTelemetry w (readingOf e w (r_body r)) (telemetryData s),
         alerts := fst (snd (generateAlerts e 2 (readingOf e w (r_body r)) (alerts s)))\<rparr>"
  by (simp add: postTelemetry_def readingOf_def Let_def split: prod.splits)

lemma postTelemetry_unknown:
  "\<not> has (vehicles s) w \<Longrightarrow> postTelemetry w e r s = ((404, Failure ''Vehicle not found''), s)"
  by (simp add: postTelemetry_def)

lemma postTelemetry_vehicles [simp]: "vehicles (snd (postTelemetry w e r s)) = vehicles s"
  by (cases "has (vehicles s) w") (simp_all add: postTelemetry_state postTelemetry_unknown)

lemma postTelemetry_stored:
  "stored (snd (postTelemetry w e (submission w d) s)) v =
     (if v = w \<and> has (vehicles s) w then stored s v @ [readingOf e w d] else stored s v)"
proof (cases "has (vehicles s) w")
  case True
  have "telemetryData (snd (postTelemetry w e (submission w d) s)) =
          pushTelemetry w (readingOf e w d) (telemetryData s)"
    using True by (simp add: postTelemetry_state submission_def)
  from stored_push [OF this, of v] True show ?thesis by simp
next
  case False
  then show ?thesis by (simp add: postTelemetry_unknown)
qed

lemma appendAll_vehicles [simp]: "vehicles (appendAll subs s) = vehicles s"
  by (induction subs s rule: appendAll.induct) simp_all

lemma appendAll_stored:
  "has (vehicles s) v \<Longrightarrow> stored (appendAll subs s) v = stored s v @ readingsFor v subs"
proof (induction subs s rule: appendAll.induct)
  case (1 s)
  then show ?case by (simp add: readingsFor_def)
next
  case (2 e w d rest s)
  let ?s' = "snd (postTelemetry w e (submission w d) s)"
  have "has (vehicles ?s') v" using 2(2) by simp
  then have "stored (appendAll rest ?s') v = stored ?s' v @ readingsFor v rest"
    by (rule 2(1))
  then show ?case using 2(2)
    by (auto simp: postTelemetry_stored readingsFor_def)
qed

lemma newestFirst_sort: "newestFirst (sortNewestFirst arr)"
proof -
  have "sorted (map (\<lambda>t. - timestamp t) (sort_key (\<lambda>t. - timestamp t) arr))"
    by (rule sorted_sort_key)
  then show ?thesis
    by (simp add: newestFirst_def sortNewestFirst_def sorted_map)
qed

lemma newestFirst_drop: "newestFirst xs \<Longrightarrow> newestFirst (drop n xs)"
  by (simp add: newestFirst_def)

lemma newestFirst_take: "newestFirst xs \<Longrightarrow> newestFirst (take n xs)"
  by (simp add: newestFirst_def)

lemma newestFirst_page: "newestFirst xs \<Longrightarrow> newestFirst (page offset limit xs)"
  by (simp add: page_def Let_def newestFirst_drop newestFirst_take split: option.splits)

lemma mset_sortNewestFirst: "mset (sortNewestFirst arr) = mset arr"
  by (simp add: sortNewestFirst_def)

text \<open>
  \<^verbatim>\<open>parseInt\<close> reads every count back from its decimal numeral.
\<close>

declare digitsOf.simps [simp del]

lemma digitsOf_nonempty: "digitsOf n \<noteq> []"
  by (subst digitsOf.simps) simp

lemma digitsOf_small: "d \<in> set (digitsOf n) \<Longrightarrow> d < 10"
  by (induction n arbitrary: d rule: digitsOf.induct)
     (subst (asm) digitsOf.simps, auto split: if_splits)

lemma digitsOf_value: "foldl (\<lambda>acc d. acc * 10 + d) 0 (digitsOf n) = n"
  by (induction n rule: digitsOf.induct) (subst digitsOf.simps, simp)

lemma of_char_digitChar: "d < 10 \<Longrightarrow> (of_char (digitChar d) :: nat) = 48 + d"
  by (simp add: digitChar_def)

lemma digitVal_digitChar: "d < 10 \<Longrightarrow> digitVal 10 (digitChar d) = Some d"
  by (simp add: digitVal_def of_char_digitChar Let_def)

lemma digits_digitChars: "\<forall>d \<in> set ds. d < 10 \<Longrightarrow> digits 10 (map digitChar ds) = ds"
  by (induction ds) (simp_all add: digitVal_digitChar)

lemma digitChar_plain:
  assumes "d < 10"
  shows "\<not> isWhite (digitChar d)" "digitChar d \<noteq> CHR ''-''" "digitChar d \<noteq> CHR ''+''"
    "digitChar d \<noteq> CHR ''x''" "digitChar d \<noteq> CHR ''X''"
proof -
  have n: "(of_char (digitChar d) :: nat) = 48 + d" using assms by (rule of_char_digitChar)
  show "\<not> isWhite (digitChar d)" using assms by (simp add: isWhite_def isWhiteUnit_def n)
  show "digitChar d \<noteq> CHR ''-''" using n by auto
  show "digitChar d \<noteq> CHR ''+''" using n by auto
  show "digitChar d \<noteq> CHR ''x''" using n assms by auto
  show "digitChar d \<noteq> CHR ''X''" using n assms by auto
qed

lemma parseInt_digitChars:
  assumes "ds \<noteq> []" and "\<forall>d \<in> set ds. d < 10"
  shows "parseInt (map digitChar ds) = Some (int (foldl (\<lambda>acc d. acc * 10 + d) 0 ds))"
proof -
  obtain d ds' where ds: "ds = d # ds'" using assms(1) by (cases ds) auto
  have d: "d < 10" using assms(2) ds by simp
  have dig: "digits 10 (map digitChar ds) = ds" using assms(2) by (rule digits_digitChars)
  have pre: "(case map digitChar ds of
                a # b # cs \<Rightarrow> if a = CHR ''0'' \<and> (b = CHR ''x'' \<or> b = CHR ''X'')
                              then (16, cs) else (10, map digitChar ds)
              | _ \<Rightarrow> (10::nat, map digitChar ds)) = (10, map digitChar ds)"
  proof (cases ds')
    case Nil
    then show ?thesis by (simp add: ds)
  next
    case (Cons b bs)
    then have "b < 10" using assms(2) ds by simp
    then show ?thesis using Cons by (simp add: ds digitChar_plain)
  qed
  have white: "dropWhile isWhite (map digitChar ds) = map digitChar ds"
    by (simp add: ds digitChar_plain [OF d])
  have sign: "(case map digitChar ds of
                 [] \<Rightarrow> (False, map digitChar ds)
               | c # cs \<Rightarrow> if c = CHR ''-'' then (True, cs)
                          else if c = CHR ''+'' then (False, cs)
                          else (False, map digitChar ds)) = (False, map digitChar ds)"
    by (simp add: ds digitChar_plain [OF d])
  show ?thesis
    unfolding parseInt_def white Let_def sign prod.case pre dig
    using assms(1) by simp
qed

lemma parseInt_decimal: "parseInt (decimal n) = Some (int n)"
  unfolding decimal_def
  using parseInt_digitChars [OF digitsOf_nonempty, of n] digitsOf_small [of _ n]
  by (simp add: digitsOf_value)

lemma decimal_nonempty: "decimal n \<noteq> []"
  by (simp add: decimal_def digitsOf_nonempty)

lemma history_response:
  assumes "has (vehicles s) v"
    and "denotes (r_query q ''offset'') offset"
    and "denotes (r_query q ''limit'') limit"
  shows "fst (getTelemetryHistory v e q s) =
           (200, HistoryData (page offset limit (sortNewestFirst (stored s v))) (length (stored s v)))"
proof -
  have off: "(case r_query q ''offset'' of
                None \<Rightarrow> xs
              | Some off \<Rightarrow> if off = [] then xs else sliceFrom xs (parseInt off)) =
             (case offset of None \<Rightarrow> xs | Some n \<Rightarrow> drop n xs)" for xs :: "TelemetryRecord list"
  proof (cases offset)
    case None
    with assms(2) show ?thesis by (auto simp: denotes_def)
  next
    case (Some n)
    with assms(2) have "r_query q ''offset'' = Some (decimal n)" by (simp add: denotes_def)
    with Some show ?thesis
      by (simp add: decimal_nonempty parseInt_decimal sliceFrom_def relIndex_def min_def)
  qed
  have lim: "(case r_query q ''limit'' of
                None \<Rightarrow> xs
              | Some lmt \<Rightarrow> if lmt = [] then xs else sliceTo xs (parseInt lmt)) =
             (case limit of None \<Rightarrow> xs | Some m \<Rightarrow> take m xs)" for xs :: "TelemetryRecord list"
  proof (cases limit)
    case None
    with assms(3) show ?thesis by (auto simp: denotes_def)
  next
    case (Some m)
    with assms(3) have "r_query q ''limit'' = Some (decimal m)" by (simp add: denotes_def)
    with Some show ?thesis
      by (simp add: decimal_nonempty parseInt_decimal sliceTo_def relIndex_def min_def)
  qed
  show ?thesis
    using assms(1)
    by (simp add: getTelemetryHistory_def Let_def off lim page_def stored_def sortNewestFirst_def
        split: option.splits prod.splits)
qed

lemma interleaved_readings:
  "readingsFor vinA interleaved =
     [readingOf (sampleEnv ''x'' 10) vinA (telemetryBody (Num 85) Null Null),
      readingOf (sampleEnv ''z'' 20) vinA emptyBody]"
  by (simp add: readingsFor_def interleaved_def vinA_def vinB_def)

lemma interleaved_stored:
  "stored (appendAll interleaved twoVehicles) vinA =
     [readingOf (sampleEnv ''x'' 10) vinA (telemetryBody (Num 85) Null Null),
      readingOf (sampleEnv ''z'' 20) vinA emptyBody]"
  by (simp add: appendAll_stored twoVehicles_has twoVehicles_stored interleaved_readings)

text \<open>
  Claim C1. Let \<open>v\<close> be a registered vehicle and let any sequence of readings be
  appended, for \<open>v\<close> and for other vehicles in any interleaving. The history query for \<open>v\<close>
  answers with the readings stored for \<open>v\<close> (those it had and those appended for it, and
  no other vehicle's), newest first: the timestamps never increase along the answer.
  For every count \<open>n\<close>, an offset whose text is the decimal numeral of \<open>n\<close> skips \<open>n\<close>
  readings from the newest end (\<open>drop n\<close>); for every count \<open>m\<close>, a limit whose text is the
  decimal numeral of \<open>m\<close> keeps the first \<open>m\<close> of the rest (\<open>take m\<close>), so at most \<open>m\<close>; an
  absent or empty parameter leaves the answer unbounded.
\<close>

theorem history_newest_first:
  assumes "has (vehicles s) v"
    and "denotes (r_query q ''offset'') offset"
    and "denotes (r_query q ''limit'') limit"
  shows "fst (getTelemetryHistory v e q (appendAll subs s)) =
           (200, HistoryData (page offset limit (sortNewestFirst (stored s v @ readingsFor v subs)))
                   (length (stored s v @ readingsFor v subs))) \<and>
         newestFirst (page offset limit (sortNewestFirst (stored s v @ readingsFor v subs))) \<and>
         mset (sortNewestFirst (stored s v @ readingsFor v subs)) =
           mset (stored s v @ readingsFor v subs) \<and>
         page None None (sortNewestFirst (stored s v @ readingsFor v subs)) =
           sortNewestFirst (stored s v @ readingsFor v subs) \<and>
         (\<forall>n. offset = Some n \<longrightarrow>
            page offset None (sortNewestFirst (stored s v @ readingsFor v subs)) =
              drop n (sortNewestFirst (stored s v @ readingsFor v subs))) \<and>
         (\<forall>m. limit = Some m \<longrightarrow>
            page offset limit (sortNewestFirst (stored s v @ readingsFor v subs)) =
              take m (page offset None (sortNewestFirst (stored s v @ readingsFor v subs))) \<and>
            length (page offset limit (sortNewestFirst (stored s v @ readingsFor v subs))) \<le> m)"
proof -
  have known: "has (vehicles (appendAll subs s)) v" using assms(1) by simp
  have st: "stored (appendAll subs s) v = stored s v @ readingsFor v subs"
    using assms(1) by (rule appendAll_stored)
  have "fst (getTelemetryHistory v e q (appendAll subs s)) =
          (200, HistoryData (page offset limit (sortNewestFirst (stored (appendAll subs s) v)))
                  (length (stored (appendAll subs s) v)))"
    using known assms(2,3) by (rule history_response)
  then have resp: "fst (getTelemetryHistory v e q (appendAll subs s)) =
           (200, HistoryData (page offset limit (sortNewestFirst (stored s v @ readingsFor v subs)))
                   (length (stored s v @ readingsFor v subs)))"
    by (simp only: st)
  have nf: "newestFirst (page offset limit (sortNewestFirst (stored s v @ readingsFor v subs)))"
    by (rule newestFirst_page) (rule newestFirst_sort)
  have ms: "mset (sortNewestFirst (stored s v @ readingsFor v subs)) =
           mset (stored s v @ readingsFor v subs)"
    by (rule mset_sortNewestFirst)
  have pn: "page None None xs = xs" for xs :: "TelemetryRecord list"
    by (simp add: page_def)
  have skip: "page (Some n) None xs = drop n xs" for n and xs :: "TelemetryRecord list"
    by (simp add: page_def)
  have keep: "page offset (Some m) xs = take m (page offset None xs)"
    for m and xs :: "TelemetryRecord list"
    by (simp add: page_def Let_def)
  have cap: "length (page offset (Some m) xs) \<le> m" for m and xs :: "TelemetryRecord list"
    by (simp add: page_def Let_def)
  from resp nf ms pn skip keep cap show ?thesis by blast
qed

theorem history_newest_first_witness:
  "has (vehicles twoVehicles) vinA \<and>
   denotes (r_query historyQuery ''offset'') (Some 1) \<and>
   denotes (r_query historyQuery ''limit'') (Some 1) \<and>
   fst (getTelemetryHistory vinA (sampleEnv ''h'' 40) historyQuery
          (appendAll interleaved twoVehicles)) =
     (200, HistoryData [readingOf (sampleEnv ''x'' 10) vinA (telemetryBody (Num 85) Null Null)] 2)"
proof -
  have h1: "has (vehicles twoVehicles) vinA" by (simp add: twoVehicles_has)
  have one: "decimal (Suc 0) = ''1''" by code_simp
  have h2: "denotes (r_query historyQuery ''offset'') (Some 1)"
    by (simp add: denotes_def historyQuery_def one)
  have h3: "denotes (r_query historyQuery ''limit'') (Some 1)"
    by (simp add: denotes_def historyQuery_def one)
  show ?thesis
    using history_newest_first [OF h1 h2 h3, of "sampleEnv ''h'' 40" interleaved] h1 h2 h3
    by (simp add: twoVehicles_stored interleaved_readings sortNewestFirst_def page_def)
qed

lemma latest_response:
  "has (vehicles s) v \<Longrightarrow>
     getLatestTelemetry v e q s =
       (if stored s v = [] then ((404, Failure ''No telemetry data found for this vehicle''), s)
        else ((200, LatestData (last (stored s v))), s))"
  by (simp add: getLatestTelemetry_def stored_def Let_def)

text \<open>
  Claim C2. Let \<open>v\<close> be a registered vehicle. After a sequence of appends of which at
  least one is for \<open>v\<close>, the latest query for \<open>v\<close> answers with the reading appended last
  for \<open>v\<close> and changes nothing; this needs no assumption on the timestamps. When no
  reading is stored for \<open>v\<close>, the query answers 404 with the no-data message instead of a
  reading.
\<close>

theorem latest_after_appends:
  assumes "has (vehicles s) v"
  shows "(readingsFor v subs \<noteq> [] \<longrightarrow>
            getLatestTelemetry v e q (appendAll subs s) =
              ((200, LatestData (last (readingsFor v subs))), appendAll subs s)) \<and>
         (stored s v = [] \<longrightarrow>
            getLatestTelemetry v e q s =
              ((404, Failure ''No telemetry data found for this vehicle''), s))"
proof -
  have known: "has (vehicles (appendAll subs s)) v" using assms by simp
  have st: "stored (appendAll subs s) v = stored s v @ readingsFor v subs"
    using assms by (rule appendAll_stored)
  show ?thesis
    using latest_response [OF known, of e q] latest_response [OF assms, of e q]
    by (simp add: st)
qed

theorem latest_after_appends_witness:
  "has (vehicles twoVehicles) vinA \<and>
   readingsFor vinA interleaved \<noteq> [] \<and>
   getLatestTelemetry vinA (sampleEnv ''h'' 40) plainQuery (appendAll interleaved twoVehicles) =
     ((200, LatestData (readingOf (sampleEnv ''z'' 20) vinA emptyBody)),
      appendAll interleaved twoVehicles) \<and>
   stored twoVehicles vinA = [] \<and>
   getLatestTelemetry vinA (sampleEnv ''h'' 40) plainQuery twoVehicles =
     ((404, Failure ''No telemetry data found for this vehicle''), twoVehicles)"
proof -
  have h1: "has (vehicles twoVehicles) vinA" by (simp add: twoVehicles_has)
  show ?thesis
    using latest_after_appends [OF h1, of interleaved "sampleEnv ''h'' 40" plainQuery] h1
    by (simp add: twoVehicles_stored interleaved_readings)
qed

lemma insort_key_last:
  "\<forall>y\<in>set ys. f y < f x \<Longrightarrow> insort_key f x ys = ys @ [x]"
  by (induction ys) auto

lemma sort_key_decreasing:
  "sorted_wrt (\<lambda>a b. f a > f b) xs \<Longrightarrow> sort_key f xs = rev xs"
proof (induction xs)
  case Nil
  then show ?case by simp
next
  case (Cons x xs)
  then have "sort_key f xs = rev xs" by simp
  moreover have "\<forall>y\<in>set (rev xs). f y < f x" using Cons.prems by auto
  ultimately show ?case by (simp add: insort_key_last)
qed

lemma sortNewestFirst_increasing:
  assumes "sorted_wrt (<) (map timestamp arr)"
  shows "sortNewestFirst arr = rev arr"
proof -
  have "sorted_wrt (\<lambda>a b. - timestamp a > - timestamp b) arr"
    using assms by (simp add: sorted_wrt_map)
  then show ?thesis
    unfolding sortNewestFirst_def by (rule sort_key_decreasing)
qed

lemma history_state:
  "has (vehicles s) v \<Longrightarrow> map_of (telemetryData s) v = Some arr \<Longrightarrow>
     snd (getTelemetryHistory v e q s) =
       s\<lparr>telemetryData := AList.update v (sortNewestFirst arr) (telemetryData s)\<rparr>"
  by (simp add: getTelemetryHistory_def Let_def split: prod.splits)

text \<open>
  Claim C10. The history query sorts the stored array in place. For a registered vehicle
  with at least two stored readings whose timestamps strictly increase in the order of
  appending, the array stored after a history query is the reverse of the one before,
  and a latest query issued after it answers with the first, earliest reading, which
  differs from the reading appended last (the answer of the latest query before the
  history query).
\<close>

theorem latest_after_history:
  assumes "has (vehicles s) v"
    and "2 \<le> length (stored s v)"
    and "sorted_wrt (<) (map timestamp (stored s v))"
  shows "fst (getLatestTelemetry v e2 q2 (snd (getTelemetryHistory v e1 q1 s))) =
           (200, LatestData (hd (stored s v))) \<and>
         fst (getLatestTelemetry v e2 q2 s) = (200, LatestData (last (stored s v))) \<and>
         hd (stored s v) \<noteq> last (stored s v) \<and>
         timestamp (hd (stored s v)) < timestamp (last (stored s v)) \<and>
         list_all (\<lambda>t. timestamp (hd (stored s v)) \<le> timestamp t) (stored s v) \<and>
         stored (snd (getTelemetryHistory v e1 q1 s)) v = rev (stored s v)"
proof -
  let ?s' = "snd (getTelemetryHistory v e1 q1 s)"
  let ?arr = "stored s v"
  have ne: "?arr \<noteq> []" using assms(2) by auto
  then have m: "map_of (telemetryData s) v = Some ?arr"
    by (auto simp: stored_def split: option.splits)
  have s': "?s' = s\<lparr>telemetryData := AList.update v (sortNewestFirst ?arr) (telemetryData s)\<rparr>"
    using assms(1) m by (rule history_state)
  have "telemetryData ?s' = AList.update v (sortNewestFirst ?arr) (telemetryData s)"
    by (subst s') simp
  from stored_update [OF this, of v] have st': "stored ?s' v = rev ?arr"
    by (simp add: sortNewestFirst_increasing [OF assms(3)])
  have "vehicles ?s' = vehicles s" by (subst s') simp
  then have known': "has (vehicles ?s') v" using assms(1) by simp
  have after: "fst (getLatestTelemetry v e2 q2 ?s') = (200, LatestData (hd ?arr))"
    using latest_response [OF known', of e2 q2] ne by (simp add: st' last_rev)
  have before: "fst (getLatestTelemetry v e2 q2 s) = (200, LatestData (last ?arr))"
    using latest_response [OF assms(1), of e2 q2] ne by simp
  obtain x ys where arr: "?arr = x # ys" and ys: "ys \<noteq> []"
    using assms(2) by (cases ?arr) (auto simp: Suc_le_eq)
  have "last ys \<in> set ys" using ys by simp
  then have "timestamp x < timestamp (last ys)"
    using assms(3) unfolding arr by auto
  then have lt: "timestamp (hd ?arr) < timestamp (last ?arr)"
    using ys by (simp add: arr)
  then have ne': "hd ?arr \<noteq> last ?arr" by auto
  have "\<forall>t \<in> set ys. timestamp x < timestamp t"
    using assms(3) unfolding arr by simp
  then have "\<forall>t \<in> set (x # ys). timestamp x \<le> timestamp t" by auto
  then have first: "list_all (\<lambda>t. timestamp (hd ?arr) \<le> timestamp t) ?arr"
    unfolding arr by (simp add: list_all_iff)
  from after before ne' lt first st' show ?thesis by blast
qed

theorem latest_after_history_witness:
  "has (vehicles (appendAll interleaved twoVehicles)) vinA \<and>
   2 \<le> length (stored (appendAll interleaved twoVehicles) vinA) \<and>
   sorted_wrt (<) (map timestamp (stored (appendAll interleaved twoVehicles) vinA)) \<and>
   fst (getLatestTelemetry vinA (sampleEnv ''l'' 50) plainQuery
          (snd (getTelemetryHistory vinA (sampleEnv ''h'' 40) plainQuery
                  (appendAll interleaved twoVehicles)))) =
     (200, LatestData (readingOf (sampleEnv ''x'' 10) vinA (telemetryBody (Num 85) Null Null))) \<and>
   fst (getLatestTelemetry vinA (sampleEnv ''l'' 50) plainQuery
          (appendAll interleaved twoVehicles)) =
     (200, LatestData (readingOf (sampleEnv ''z'' 20) vinA emptyBody))"
proof -
  have h1: "has (vehicles (appendAll interleaved twoVehicles)) vinA"
    by (simp add: twoVehicles_has)
  have h2: "2 \<le> length (stored (appendAll interleaved twoVehicles) vinA)"
    by (simp add: interleaved_stored)
  have h3: "sorted_wrt (<) (map timestamp (stored (appendAll interleaved twoVehicles) vinA))"
    by (simp add: interleaved_stored)
  show ?thesis
    using latest_after_history [OF h1 h2 h3, of "sampleEnv ''l'' 50" plainQuery
            "sampleEnv ''h'' 40" plainQuery] h1 h2 h3
    by (simp add: interleaved_stored)
qed

section \<open>The alert ledger\<close>

text \<open>
  Claim C6. Updating the status of an alert identifier that is not in the ledger
  answers 404 (alert not found) and leaves all three stores as they were. For an
  identifier that is in the ledger, every non-empty status is accepted whatever the
  alert's status was: the stored alert gets the new status, and the other alerts, the
  order of the ledger, the vehicles and the telemetry are unchanged.
\<close>

theorem updateStatus_behaviour:
  "(map_of (alerts s) i = None \<longrightarrow>
      updateAlert i e r s = ((404, Failure ''Alert not found''), s)) \<and>
   (map_of (alerts s) i = Some a \<and> b_status (r_body r) = Some st \<and> st \<noteq> [] \<longrightarrow>
      fst (updateAlert i e r s) = (200, AlertData (a\<lparr>a_status := st\<rparr>)) \<and>
      map_of (alerts (snd (updateAlert i e r s))) i = Some (a\<lparr>a_status := st\<rparr>) \<and>
      (\<forall>j. j \<noteq> i \<longrightarrow> map_of (alerts (snd (updateAlert i e r s))) j = map_of (alerts s) j) \<and>
      map fst (alerts (snd (updateAlert i e r s))) = map fst (alerts s) \<and>
      vehicles (snd (updateAlert i e r s)) = vehicles s \<and>
      telemetryData (snd (updateAlert i e r s)) = telemetryData s)"
proof (intro conjI impI)
  assume "map_of (alerts s) i = None"
  then show "updateAlert i e r s = ((404, Failure ''Alert not found''), s)"
    by (simp add: updateAlert_def)
next
  assume h: "map_of (alerts s) i = Some a \<and> b_status (r_body r) = Some st \<and> st \<noteq> []"
  then have res: "updateAlert i e r s =
      ((200, AlertData (a\<lparr>a_status := st\<rparr>)),
       s\<lparr>alerts := AList.update i (a\<lparr>a_status := st\<rparr>) (alerts s)\<rparr>)"
    by (simp add: updateAlert_def)
  have key: "i \<in> set (map fst (alerts s))"
    using h by (auto dest: map_of_SomeD intro: rev_image_eqI)
  show "fst (updateAlert i e r s) = (200, AlertData (a\<lparr>a_status := st\<rparr>))"
    by (simp add: res)
  show "map_of (alerts (snd (updateAlert i e r s))) i = Some (a\<lparr>a_status := st\<rparr>)"
    by (simp add: res update_conv')
  show "\<forall>j. j \<noteq> i \<longrightarrow>
          map_of (alerts (snd (updateAlert i e r s))) j = map_of (alerts s) j"
    by (simp add: res update_conv')
  show "map fst (alerts (snd (updateAlert i e r s))) = map fst (alerts s)"
    using key by (simp add: res update_keys)
  show "vehicles (snd (updateAlert i e r s)) = vehicles s"
    by (simp add: res)
  show "telemetryData (snd (updateAlert i e r s)) = telemetryData s"
    by (simp add: res)
qed

theorem updateStatus_behaviour_witness:
  "map_of (alerts twoVehicles) ''t++'' = None \<and>
   updateAlert ''t++'' (sampleEnv ''u'' 60) (statusReq ''t++'' ''Resolved'') twoVehicles =
     ((404, Failure ''Alert not found''), twoVehicles) \<and>
   map_of (alerts withAlert) ''t++'' =
     Some (new_Alert (sampleEnv ''t'' 10) 2 vinA ''SPEED_VIOLATION''
             [Lit ''Vehicle '', Lit vinA, Lit '' exceeded speed limit: '', Val (Num 85),
              Lit '' km/h''] ''High'') \<and>
   b_status (r_body (statusReq ''t++'' ''Resolved'')) = Some ''Resolved'' \<and>
   map_of (alerts (snd (updateAlert ''t++'' (sampleEnv ''u'' 60)
                          (statusReq ''t++'' ''Resolved'') withAlert))) ''t++'' =
     Some ((new_Alert (sampleEnv ''t'' 10) 2 vinA ''SPEED_VIOLATION''
             [Lit ''Vehicle '', Lit vinA, Lit '' exceeded speed limit: '', Val (Num 85),
              Lit '' km/h''] ''High'')\<lparr>a_status := ''Resolved''\<rparr>)"
proof -
  let ?a = "new_Alert (sampleEnv ''t'' 10) 2 vinA ''SPEED_VIOLATION''
             [Lit ''Vehicle '', Lit vinA, Lit '' exceeded speed limit: '', Val (Num 85),
              Lit '' km/h''] ''High''"
  have h1: "map_of (alerts twoVehicles) ''t++'' = None" by (simp add: twoVehicles_alerts)
  have h2: "map_of (alerts withAlert) ''t++'' = Some ?a" by (simp add: withAlert_alerts)
  have h3: "b_status (r_body (statusReq ''t++'' ''Resolved'')) = Some ''Resolved''"
    by (simp add: statusReq_def req_def emptyBody_def)
  show ?thesis
    using updateStatus_behaviour [where s = twoVehicles and i = "''t++''"
            and e = "sampleEnv ''u'' 60" and r = "statusReq ''t++'' ''Resolved''"]
          updateStatus_behaviour [where s = withAlert and i = "''t++''" and a = ?a
            and r = "statusReq ''t++'' ''Resolved''" and st = "''Resolved''"
            and e = "sampleEnv ''u'' 60"]
          h1 h2 h3
    by simp
qed

section \<open>Routing\<close>

lemma readonly_handlers [simp]:
  "snd (listVehicles p e r s) = s" "snd (getVehicle p e r s) = s"
  "snd (getLatestTelemetry p e r s) = s" "snd (listAlerts p e r s) = s"
  "snd (getAlert p e r s) = s" "snd (health p e r s) = s"
  by (simp_all add: listVehicles_def getVehicle_def getLatestTelemetry_def listAlerts_def
      getAlert_def health_def Let_def split: option.splits)

text \<open>
  What \<open>dispatch\<close> does is one of three things: the 404 of the catch-all, the 500 of the
  error middleware, or the handler of a route of the table whose path matches and which
  handles the method. The first two leave the stores alone.
\<close>

lemma dispatch_cases:
  "dispatch rs e r s = ((404, Failure ''Route not found''), s) \<or>
   dispatch rs e r s = ((500, Failure ''Something went wrong!''), s) \<or>
   (\<exists>(m, pat, h) \<in> set rs. \<exists>p. handles m (r_method r) \<and> matchPath pat (r_path r) = Match p \<and>
      dispatch rs e r s = h p e r s)"
  by (induction rs e r s rule: dispatch.induct) (auto split: match.splits)

lemma app_cases:
  obtains (notFound) "app e r s = ((404, Failure ''Route not found''), s)"
  | (badParam) "app e r s = ((500, Failure ''Something went wrong!''), s)"
  | (route) m pat h p where "(m, pat, h) \<in> set routes" "handles m (r_method r)"
      "matchPath pat (r_path r) = Match p" "app e r s = h p e r s"
  using dispatch_cases [of routes e r s] unfolding app_def by blast

lemma handles_DELETE [simp]: "handles DELETE v = (v = DELETE)"
  by (auto simp: handles_def)

lemma handles_POST [simp]: "handles POST v = (v = POST)"
  by (auto simp: handles_def)

text \<open>
  The routes of the store and of the ledger reach their handlers, here for paths written
  as in the source.
\<close>

lemma app_history:
  assumes "r_method r = GET \<or> r_method r = HEAD"
    and "r_path r = [plain ''api'', plain ''telemetry'', \<lparr>raw = x, decoded = Some v\<rparr>]"
    and "x \<noteq> []"
  shows "app e r s = getTelemetryHistory v e r s"
  using assms by (auto simp: routing_defs)

lemma app_latest:
  assumes "r_method r = GET \<or> r_method r = HEAD"
    and "r_path r = [plain ''api'', plain ''telemetry'', \<lparr>raw = x, decoded = Some v\<rparr>,
                     plain ''latest'']"
    and "x \<noteq> []"
  shows "app e r s = getLatestTelemetry v e r s"
  using assms by (auto simp: routing_defs)

lemma app_ingest:
  assumes "r_method r = POST"
    and "r_path r = [plain ''api'', plain ''telemetry'', \<lparr>raw = x, decoded = Some v\<rparr>]"
    and "x \<noteq> []"
  shows "app e r s = postTelemetry v e r s"
  using assms by (simp add: routing_defs)

lemma app_updateAlert:
  assumes "r_method r = PUT"
    and "r_path r = [plain ''api'', plain ''alerts'', \<lparr>raw = x, decoded = Some i\<rparr>]"
    and "x \<noteq> []"
  shows "app e r s = updateAlert i e r s"
  using assms by (simp add: routing_defs)

subsection \<open>Registered VINs have 17 characters\<close>

lemma vinsValid_iff: "vinsValid s = (\<forall>v \<in> fst ` set (vehicles s). length v = 17)"
  by (auto simp: vinsValid_def list_all_iff)

lemma validateVehicleData_vin:
  "validateVehicleData d = [] \<Longrightarrow> validateVIN (b_vin d)"
  unfolding validateVehicleData_def by (cases "validateVIN (b_vin d)") simp_all

lemma createVehicle_vinsValid:
  assumes "vinsValid s"
  shows "vinsValid (snd (createVehicle p e r s))"
proof (cases "snd (createVehicle p e r s) = s")
  case True
  with assms show ?thesis by simp
next
  case False
  then obtain w vehicle where ok: "validateVehicleData (r_body r) = []"
    and w: "b_vin (r_body r) = Some w"
    and s': "snd (createVehicle p e r s) =
               s\<lparr>vehicles := AList.update w vehicle (vehicles s),
                 telemetryData := AList.update w [] (telemetryData s)\<rparr>"
    by (auto simp: createVehicle_def Let_def split: if_splits option.splits)
  have "validateVIN (Some w)" using validateVehicleData_vin [OF ok] w by simp
  then have "length w = 17" by (simp add: validateVIN_def)
  with assms show ?thesis by (auto simp: vinsValid_iff s' dom_update)
qed

lemma updateVehicle_vinsValid:
  assumes "vinsValid s"
  shows "vinsValid (snd (updateVehicle p e r s))"
proof (cases "map_of (vehicles s) p")
  case None
  with assms show ?thesis by (simp add: updateVehicle_def)
next
  case (Some vehicle)
  then have "p \<in> fst ` set (vehicles s)" by (auto dest: map_of_SomeD intro: rev_image_eqI)
  with assms Some show ?thesis
    by (auto simp: vinsValid_iff updateVehicle_def Let_def dom_update)
qed

lemma deleteVehicle_vinsValid:
  assumes "vinsValid s"
  shows "vinsValid (snd (deleteVehicle p e r s))"
proof -
  have "fst ` set (AList.delete p (vehicles s)) \<subseteq> fst ` set (vehicles s)"
    by (rule dom_delete_subset)
  with assms have "\<forall>v \<in> fst ` set (AList.delete p (vehicles s)). length v = 17"
    unfolding vinsValid_iff by blast
  with assms show ?thesis by (simp add: vinsValid_iff deleteVehicle_def)
qed

lemma batchLoop_vehicles:
  "vehicles (snd (snd (batchLoop e recs k s results allAlerts))) = vehicles s"
  by (induction e recs k s results allAlerts rule: batchLoop.induct)
     (auto simp: Let_def split: option.splits prod.splits)

lemma postTelemetryBatch_vehicles: "vehicles (snd (postTelemetryBatch p e r s)) = vehicles s"
proof (cases "b_records (r_body r)")
  case None
  then show ?thesis by (simp add: postTelemetryBatch_def)
next
  case (Some recs)
  have "snd (postTelemetryBatch p e r s) = snd (snd (batchLoop e recs 0 s [] []))"
    using Some by (simp add: postTelemetryBatch_def split: prod.splits)
  then show ?thesis by (simp add: batchLoop_vehicles)
qed

lemma unchanged_vehicles:
  "vehicles (snd (postTelemetry p e r s)) = vehicles s"
  "vehicles (snd (getTelemetryHistory p e r s)) = vehicles s"
  "vehicles (snd (updateAlert p e r s)) = vehicles s"
  by (simp_all add: postTelemetry_def getTelemetryHistory_def
      updateAlert_def Let_def split: option.splits prod.splits)

lemma unchanged_vinsValid:
  assumes "vinsValid s"
  shows "vinsValid (snd (postTelemetry p e r s))"
    and "vinsValid (snd (postTelemetryBatch p e r s))"
    and "vinsValid (snd (getTelemetryHistory p e r s))"
    and "vinsValid (snd (updateAlert p e r s))"
  using assms unfolding vinsValid_def
  by (simp_all only: unchanged_vehicles postTelemetryBatch_vehicles)

lemma app_vinsValid:
  assumes "vinsValid s"
  shows "vinsValid (snd (app e r s))"
proof (cases e r s rule: app_cases)
  case notFound
  with assms show ?thesis by simp
next
  case badParam
  with assms show ?thesis by simp
next
  case (route m pat h p)
  from route(1) show ?thesis
    unfolding routes_def route(4)
    using assms
    by (auto simp: createVehicle_vinsValid updateVehicle_vinsValid deleteVehicle_vinsValid
        unchanged_vinsValid)
qed

lemma serve_vinsValid: "vinsValid s \<Longrightarrow> vinsValid (serve reqs s)"
  by (induction reqs s rule: serve.induct) (simp_all add: app_vinsValid)

lemma init_vinsValid: "vinsValid init"
  by (simp add: vinsValid_def init_def)

subsection \<open>Batch ingestion\<close>

text \<open>
  A request for \<^verbatim>\<open>POST /api/telemetry/batch\<close> is taken by the route
  \<^verbatim>\<open>POST /api/telemetry/:vin\<close>, registered before the batch route, with \<^verbatim>\<open>batch\<close> as
  the VIN. No registered VIN has five characters, so in every state the service reaches
  the answer is 404 and nothing is stored.
\<close>

lemma batch_route_shadowed:
  assumes "vinsValid s" and "r_method r = POST"
    and "r_path r = map plain [''api'', ''telemetry'', ''batch'']"
  shows "app e r s = ((404, Failure ''Vehicle not found''), s)"
proof -
  have "app e r s = postTelemetry ''batch'' e r s"
    using assms(2,3) by (simp add: routing_defs)
  moreover have "\<not> has (vehicles s) ''batch''"
  proof
    assume "has (vehicles s) ''batch''"
    then have "''batch'' \<in> fst ` set (vehicles s)" by (simp only: has_keys)
    with assms(1) have "length ''batch'' = 17" unfolding vinsValid_iff by blast
    then show False by simp
  qed
  ultimately show ?thesis by (simp add: postTelemetry_def)
qed

lemma batch_never_served:
  assumes "r_method r = POST" and "r_path r = map plain [''api'', ''telemetry'', ''batch'']"
  shows "app e r (serve reqs init) = ((404, Failure ''Vehicle not found''), serve reqs init)"
  using serve_vinsValid [OF init_vinsValid] assms by (rule batch_route_shadowed)

text \<open>
  Called on its own, the batch handler does report each record by itself: the response
  has one item per record, in order, an item is a success exactly when its vehicle is
  registered, and every alert returned is for a registered vehicle named by a record.
  On the sample batch: two successes, one failure for the unregistered vehicle, and the
  two alerts of the successful records.
\<close>

lemma generateAlerts_vin:
  "a \<in> set (fst (generateAlerts e k t al)) \<Longrightarrow> a_vin a = t_vin t"
  by (auto simp: generateAlerts_def new_Alert_def Let_def split: if_splits)

lemma batchLoop_per_record:
  "map itemVin (fst (batchLoop e recs k s results allAlerts)) =
     map itemVin results @ map br_vin recs \<and>
   map itemOk (fst (batchLoop e recs k s results allAlerts)) =
     map itemOk results @ map (\<lambda>rc. known s (br_vin rc)) recs \<and>
   (\<forall>a \<in> set (fst (snd (batchLoop e recs k s results allAlerts))).
      a \<in> set allAlerts \<or>
      (\<exists>rc \<in> set recs. br_vin rc = Some (a_vin a) \<and> has (vehicles s) (a_vin a)))"
proof (induction e recs k s results allAlerts rule: batchLoop.induct)
  case (1 e k s results allAlerts)
  then show ?case by simp
next
  case (2 e rc rest k s results allAlerts)
  show ?case
  proof (cases "br_vin rc")
    case None
    with 2 show ?thesis by (auto simp: known_def)
  next
    case (Some w)
    show ?thesis
    proof (cases "has (vehicles s) w")
      case False
      with 2 Some show ?thesis by (auto simp: known_def)
    next
      case True
      let ?t = "new_TelemetryRecord e k w (br_speed rc) (br_fuelLevel rc)
                  (br_batteryLevel rc) (br_location rc) (br_engineStatus rc)"
      obtain gen al k' where g: "generateAlerts e (k + 2) ?t (alerts s) = (gen, al, k')"
        by (cases "generateAlerts e (k + 2) ?t (alerts s)") auto
      let ?s1 = "s\<lparr>telemetryData := pushTelemetry w ?t (telemetryData s), alerts := al\<rparr>"
      have step: "batchLoop e (rc # rest) k s results allAlerts =
                    batchLoop e rest k' ?s1 (results @ [ItemOk w ?t]) (allAlerts @ gen)"
        using Some True g by (simp add: Let_def)
      have gen: "a_vin a = w" if "a \<in> set gen" for a
        using generateAlerts_vin [of a e "k + 2" ?t "alerts s"] that g
        by (simp add: new_TelemetryRecord_def)
      have kn: "known ?s1 v = known s v" for v by (cases v) (simp_all add: known_def)
      have hd_known: "known s (br_vin rc)" using Some True by (simp add: known_def)
      note IH = "2.IH"(2) [OF Some True refl refl refl g [symmetric] refl]
      from IH have vins: "map itemVin (fst (batchLoop e rest k' ?s1 (results @ [ItemOk w ?t])
                                           (allAlerts @ gen))) =
                            map itemVin results @ map br_vin (rc # rest)"
        using Some by simp
      from IH have oks: "map itemOk (fst (batchLoop e rest k' ?s1 (results @ [ItemOk w ?t])
                                          (allAlerts @ gen))) =
                           map itemOk results @ map (\<lambda>rc. known s (br_vin rc)) (rc # rest)"
        using hd_known by (simp add: kn)
      have als: "a \<in> set allAlerts \<or>
                 (\<exists>rc' \<in> set (rc # rest). br_vin rc' = Some (a_vin a) \<and> has (vehicles s) (a_vin a))"
        if "a \<in> set (fst (snd (batchLoop e rest k' ?s1 (results @ [ItemOk w ?t])
                                   (allAlerts @ gen))))" for a
      proof -
        from IH that have "a \<in> set (allAlerts @ gen) \<or>
            (\<exists>rc' \<in> set rest. br_vin rc' = Some (a_vin a) \<and> has (vehicles ?s1) (a_vin a))"
          by blast
        then consider "a \<in> set allAlerts" | "a \<in> set gen"
          | "\<exists>rc' \<in> set rest. br_vin rc' = Some (a_vin a) \<and> has (vehicles s) (a_vin a)"
          by auto
        then show ?thesis
        proof cases
          case 2
          then have "a_vin a = w" by (rule gen)
          with Some True show ?thesis by simp
        qed auto
      qed
      show ?thesis unfolding step using vins oks als by blast
    qed
  qed
qed

lemma batch_handler_alone:
  "fst (postTelemetryBatch [] (sampleEnv ''q'' 30) batchReq twoVehicles) =
     (201, BatchResult
        [ItemOk vinA (new_TelemetryRecord (sampleEnv ''q'' 30) 0 vinA (Num 85) (Num 50) (Num 50)
                        JUndefined JUndefined),
         ItemFailed (Some vinC) ''Vehicle not found'',
         ItemOk vinB (new_TelemetryRecord (sampleEnv ''q'' 30) 4 vinB (Num 30) (Num 10) Null
                        JUndefined JUndefined)]
        2
        [new_Alert (sampleEnv ''q'' 30) 2 vinA ''SPEED_VIOLATION''
           [Lit ''Vehicle '', Lit vinA, Lit '' exceeded speed limit: '', Val (Num 85),
            Lit '' km/h''] ''High'',
         new_Alert (sampleEnv ''q'' 30) 6 vinB ''LOW_FUEL''
           [Lit ''Vehicle '', Lit vinB, Lit '' has low fuel: '', Val (Num 10), Lit ''%'']
           ''Medium''])"
  by (simp add: twoVehicles_state batchReq_def batchRecord_def postTelemetryBatch_def req_def
      emptyBody_def has_def generateAlerts_def new_Alert_def new_TelemetryRecord_def
      pushTelemetry_def sampleEnv_def Let_def vinA_def vinB_def vinC_def eval_nat_numeral)

text \<open>
  Claim C5 says that a batch with one unknown vehicle is processed record by record:
  for the sample batch, two successes, one failure and the alerts of the two successes.
  The service answers the batch request with 404 (vehicle not found) and appends
  nothing.
\<close>

theorem batch_request_rejected:
  "app (sampleEnv ''q'' 30) batchReq twoVehicles =
     ((404, Failure ''Vehicle not found''), twoVehicles)"
  by (simp add: twoVehicles_state batchReq_def routing_defs req_def postTelemetry_def
      has_def vinA_def vinB_def)

section \<open>Alerts and the readings that produced them\<close>

lemma content_generateAlerts:
  "map content (fst (generateAlerts e k t al)) = map content (fst (generateAlerts e' k' t al'))"
  by (simp add: generateAlerts_def content_def new_Alert_def Let_def)

lemma produced_iff:
  "produced t a = (content a \<in> set (map content (fst (generateAlerts e k t al))))"
  unfolding produced_def by (subst content_generateAlerts [of nullEnv 0 t "[]" e k al]) simp

lemma produced_vin: "produced t a \<Longrightarrow> a_vin a = t_vin t"
  by (auto simp: produced_def generateAlerts_def content_def new_Alert_def Let_def
      split: if_splits)

lemma produced_content: "content b = content a \<Longrightarrow> produced t b = produced t a"
  by (simp add: produced_def)

lemma generateAlerts_stores_generated:
  "(i, a) \<in> set (fst (snd (generateAlerts e k t al))) \<Longrightarrow>
     (i, a) \<in> set al \<or> a \<in> set (fst (generateAlerts e k t al))"
  by (auto simp: generateAlerts_def Let_def split: if_splits dest!: set_update_cases)

lemma generateAlerts_new:
  assumes "(i, a) \<in> set (fst (snd (generateAlerts e k t al)))"
  shows "(i, a) \<in> set al \<or> produced t a"
proof -
  from generateAlerts_stores_generated [OF assms] show ?thesis
  proof
    assume "a \<in> set (fst (generateAlerts e k t al))"
    then have "content a \<in> set (map content (fst (generateAlerts e k t al)))" by simp
    then have "produced t a" by (simp only: produced_iff [of t a e k al])
    then show ?thesis ..
  qed simp
qed

lemma noOrphansFor_iff:
  "noOrphansFor v s =
     (\<forall>(i, a) \<in> set (alerts s). a_vin a = v \<longrightarrow> (\<exists>t \<in> set (stored s v). produced t a))"
  by (auto simp: noOrphansFor_def list_all_iff list_ex_iff)

lemma noOrphans_iff: "noOrphans s = (\<forall>v. noOrphansFor v s)"
  by (auto simp: noOrphans_def noOrphansFor_def list_all_iff)

lemma inherited_iff:
  "inherited s0 a = (\<exists>(j, b) \<in> set (alerts s0). content b = content a)"
  by (auto simp: inherited_def list_ex_iff)

lemma inherited_content: "content b = content a \<Longrightarrow> inherited s0 b = inherited s0 a"
  by (simp add: inherited_iff)

lemma noNewOrphansFor_iff:
  "noNewOrphansFor s0 v s =
     (\<forall>(i, a) \<in> set (alerts s). a_vin a = v \<longrightarrow>
        inherited s0 a \<or> (\<exists>t \<in> set (stored s v). produced t a))"
  by (auto simp: noNewOrphansFor_def list_all_iff list_ex_iff)

text \<open>With an empty ledger at the start, nothing is inherited.\<close>

lemma noNewOrphansFor_init: "noNewOrphansFor init v s = noOrphansFor v s"
  by (simp add: noNewOrphansFor_iff noOrphansFor_iff inherited_iff init_def)

text \<open>
  How a step keeps the invariant: the readings stored for \<open>v\<close> stay, every alert that
  names \<open>v\<close> says what an alert of the ledger before the step says or is produced by a
  stored reading, and \<open>v\<close> stays registered or without readings.
\<close>

lemma consistentFor_intro:
  assumes "consistentFor s0 v s"
    and "set (stored s v) \<subseteq> set (stored s' v)"
    and "\<And>i a. (i, a) \<in> set (alerts s') \<Longrightarrow> a_vin a = v \<Longrightarrow>
           (\<exists>j b. (j, b) \<in> set (alerts s) \<and> content b = content a) \<or>
           (\<exists>t \<in> set (stored s' v). produced t a)"
    and "has (vehicles s) v \<Longrightarrow> has (vehicles s') v"
    and "stored s v = [] \<Longrightarrow> \<not> has (vehicles s) v \<Longrightarrow> has (vehicles s') v \<or> stored s' v = []"
  shows "consistentFor s0 v s'"
proof -
  have old: "\<And>j b. (j, b) \<in> set (alerts s) \<Longrightarrow> a_vin b = v \<Longrightarrow>
                inherited s0 b \<or> (\<exists>t \<in> set (stored s v). produced t b)"
    using assms(1) by (auto simp: consistentFor_def noNewOrphansFor_iff)
  have "inherited s0 a \<or> (\<exists>t \<in> set (stored s' v). produced t a)"
    if "(i, a) \<in> set (alerts s')" "a_vin a = v" for i a
  proof -
    from assms(3) [OF that] show ?thesis
    proof
      assume "\<exists>j b. (j, b) \<in> set (alerts s) \<and> content b = content a"
      then obtain j b where b: "(j, b) \<in> set (alerts s)" "content b = content a"
        by blast
      then have "a_vin b = v" using that(2) by (simp add: content_def)
      from old [OF b(1) this] show ?thesis
      proof
        assume "inherited s0 b"
        then have "inherited s0 a" by (simp only: inherited_content [OF b(2)])
        then show ?thesis ..
      next
        assume "\<exists>t \<in> set (stored s v). produced t b"
        then obtain t where t: "t \<in> set (stored s v)" "produced t b" by blast
        then have "t \<in> set (stored s' v)" "produced t a"
          using assms(2) produced_content [OF b(2), of t] by auto
        then show ?thesis by blast
      qed
    qed blast
  qed
  then have "noNewOrphansFor s0 v s'" by (auto simp: noNewOrphansFor_iff)
  moreover have "has (vehicles s') v \<or> stored s' v = []"
    using assms(1,4,5) by (auto simp: consistentFor_def unknownEmpty_def)
  ultimately show ?thesis by (simp add: consistentFor_def unknownEmpty_def)
qed

lemma createVehicle_consistent:
  assumes "consistentFor s0 v s"
  shows "consistentFor s0 v (snd (createVehicle p e r s))"
proof (cases "snd (createVehicle p e r s) = s")
  case True
  with assms show ?thesis by simp
next
  case False
  let ?s' = "snd (createVehicle p e r s)"
  from False obtain w vehicle where new: "\<not> has (vehicles s) w"
    and s': "?s' = s\<lparr>vehicles := AList.update w vehicle (vehicles s),
                     telemetryData := AList.update w [] (telemetryData s)\<rparr>"
    by (auto simp: createVehicle_def Let_def split: if_splits option.splits)
  have td: "telemetryData ?s' = AList.update w [] (telemetryData s)"
    and veh: "vehicles ?s' = AList.update w vehicle (vehicles s)"
    and al: "alerts ?s' = alerts s"
    by (simp_all add: s')
  have st: "stored ?s' v = (if v = w then [] else stored s v)"
    using td by (rule stored_update)
  show ?thesis
  proof (rule consistentFor_intro [OF assms])
    show "set (stored s v) \<subseteq> set (stored ?s' v)"
      using assms new by (auto simp: st consistentFor_def unknownEmpty_def)
    show "has (vehicles s) v \<Longrightarrow> has (vehicles ?s') v"
      by (simp add: veh has_update)
    show "stored s v = [] \<Longrightarrow> \<not> has (vehicles s) v \<Longrightarrow>
            has (vehicles ?s') v \<or> stored ?s' v = []"
      by (simp add: st)
    show "\<And>i a. (i, a) \<in> set (alerts ?s') \<Longrightarrow> a_vin a = v \<Longrightarrow>
            (\<exists>j b. (j, b) \<in> set (alerts s) \<and> content b = content a) \<or>
            (\<exists>t \<in> set (stored ?s' v). produced t a)"
      unfolding al by blast
  qed
qed

lemma updateVehicle_consistent:
  assumes "consistentFor s0 v s"
  shows "consistentFor s0 v (snd (updateVehicle p e r s))"
proof (cases "map_of (vehicles s) p")
  case None
  with assms show ?thesis by (simp add: updateVehicle_def)
next
  case (Some vehicle)
  let ?s' = "snd (updateVehicle p e r s)"
  have s': "?s' = s\<lparr>vehicles := AList.update p (update_Vehicle e (r_body r) vehicle) (vehicles s)\<rparr>"
    using Some by (simp add: updateVehicle_def Let_def)
  have td: "telemetryData ?s' = telemetryData s"
    and veh: "vehicles ?s' = AList.update p (update_Vehicle e (r_body r) vehicle) (vehicles s)"
    and al: "alerts ?s' = alerts s"
    by (simp_all add: s')
  have st: "stored ?s' v = stored s v" using td by (rule stored_eq)
  show ?thesis
  proof (rule consistentFor_intro [OF assms])
    show "\<And>i a. (i, a) \<in> set (alerts ?s') \<Longrightarrow> a_vin a = v \<Longrightarrow>
            (\<exists>j b. (j, b) \<in> set (alerts s) \<and> content b = content a) \<or>
            (\<exists>t \<in> set (stored ?s' v). produced t a)"
      unfolding al by blast
  qed (simp_all add: st veh has_update)
qed

lemma deleteVehicle_consistent:
  assumes "consistentFor s0 v s" and "p \<noteq> v"
  shows "consistentFor s0 v (snd (deleteVehicle p e r s))"
proof (cases "has (vehicles s) p")
  case False
  with assms show ?thesis by (simp add: deleteVehicle_def)
next
  case True
  let ?s' = "snd (deleteVehicle p e r s)"
  have s': "?s' = s\<lparr>vehicles := AList.delete p (vehicles s),
                     telemetryData := AList.delete p (telemetryData s)\<rparr>"
    using True by (simp add: deleteVehicle_def)
  have td: "telemetryData ?s' = AList.delete p (telemetryData s)"
    and veh: "vehicles ?s' = AList.delete p (vehicles s)"
    and al: "alerts ?s' = alerts s"
    by (simp_all add: s')
  have st: "stored ?s' v = stored s v"
    using stored_delete [OF td, of v] assms(2) by simp
  show ?thesis
  proof (rule consistentFor_intro [OF assms(1)])
    show "\<And>i a. (i, a) \<in> set (alerts ?s') \<Longrightarrow> a_vin a = v \<Longrightarrow>
            (\<exists>j b. (j, b) \<in> set (alerts s) \<and> content b = content a) \<or>
            (\<exists>t \<in> set (stored ?s' v). produced t a)"
      unfolding al by blast
  qed (use assms(2) in \<open>simp_all add: st veh has_delete\<close>)
qed

text \<open>One accepted reading: the step shared by the single and the batch handler.\<close>

lemma ingest_consistent:
  assumes "consistentFor s0 v s" and "has (vehicles s) p" and "t_vin t = p"
    and td: "telemetryData s' = pushTelemetry p t (telemetryData s)"
    and al: "alerts s' = fst (snd (generateAlerts e k t (alerts s)))"
    and veh: "vehicles s' = vehicles s"
  shows "consistentFor s0 v s'"
proof (rule consistentFor_intro [OF assms(1)])
  have st: "stored s' v = (if v = p then stored s v @ [t] else stored s v)"
    using td by (rule stored_push)
  show "set (stored s v) \<subseteq> set (stored s' v)" by (auto simp: st)
  show "has (vehicles s) v \<Longrightarrow> has (vehicles s') v" by (simp add: veh)
  show "stored s v = [] \<Longrightarrow> \<not> has (vehicles s) v \<Longrightarrow>
          has (vehicles s') v \<or> stored s' v = []"
    using assms(2) by (auto simp: st)
  show "(\<exists>j b. (j, b) \<in> set (alerts s) \<and> content b = content a) \<or>
        (\<exists>t \<in> set (stored s' v). produced t a)"
    if "(i, a) \<in> set (alerts s')" "a_vin a = v" for i a
  proof -
    from that(1) have "(i, a) \<in> set (alerts s) \<or> produced t a"
      using generateAlerts_new [of i a e k t "alerts s"] by (simp add: al)
    then show ?thesis
    proof
      assume "(i, a) \<in> set (alerts s)"
      with that(2) show ?thesis by blast
    next
      assume pr: "produced t a"
      then have "v = p" using assms(3) that(2) produced_vin [of t a] by simp
      have "t \<in> set (stored s' v)" unfolding st using \<open>v = p\<close> by simp
      with pr show ?thesis by blast
    qed
  qed
qed

lemma postTelemetry_consistent:
  assumes "consistentFor s0 v s"
  shows "consistentFor s0 v (snd (postTelemetry p e r s))"
proof (cases "has (vehicles s) p")
  case False
  with assms show ?thesis by (simp add: postTelemetry_def)
next
  case True
  let ?t = "new_TelemetryRecord e 0 p (b_speed (r_body r)) (b_fuelLevel (r_body r))
              (b_batteryLevel (r_body r)) (b_location (r_body r)) (b_engineStatus (r_body r))"
  have s': "snd (postTelemetry p e r s) =
              s\<lparr>telemetryData := pushTelemetry p ?t (telemetryData s),
                alerts := fst (snd (generateAlerts e 2 ?t (alerts s)))\<rparr>"
    using True by (simp add: postTelemetry_def Let_def split: prod.splits)
  have "t_vin ?t = p" by (simp add: new_TelemetryRecord_def)
  from assms True this show ?thesis
    by (rule ingest_consistent [where e = e and k = 2]) (simp_all add: s')
qed

lemma batchLoop_consistent:
  "consistentFor s0 v s \<Longrightarrow> consistentFor s0 v (snd (snd (batchLoop e recs k s results allAlerts)))"
proof (induction e recs k s results allAlerts rule: batchLoop.induct)
  case (1 e k s results allAlerts)
  then show ?case by simp
next
  case (2 e rc rest k s results allAlerts)
  show ?case
  proof (cases "br_vin rc")
    case None
    with 2 show ?thesis by simp
  next
    case (Some w)
    show ?thesis
    proof (cases "has (vehicles s) w")
      case False
      with 2 Some show ?thesis by simp
    next
      case True
      let ?t = "new_TelemetryRecord e k w (br_speed rc) (br_fuelLevel rc)
                  (br_batteryLevel rc) (br_location rc) (br_engineStatus rc)"
      obtain gen al k' where g: "generateAlerts e (k + 2) ?t (alerts s) = (gen, al, k')"
        by (cases "generateAlerts e (k + 2) ?t (alerts s)") auto
      let ?s1 = "s\<lparr>telemetryData := pushTelemetry w ?t (telemetryData s), alerts := al\<rparr>"
      have "t_vin ?t = w" by (simp add: new_TelemetryRecord_def)
      have g': "fst (snd (generateAlerts e (k + 2) ?t (alerts s))) = al"
        by (simp only: g fst_conv snd_conv)
      from "2.prems" True \<open>t_vin ?t = w\<close> have c: "consistentFor s0 v ?s1"
        by (rule ingest_consistent [where e = e and k = "k + 2"]) (simp_all only: g', simp_all)
      have "consistentFor s0 v
              (snd (snd (batchLoop e rest k' ?s1 (results @ [ItemOk w ?t]) (allAlerts @ gen))))"
        using "2.IH"(2) [OF Some True refl refl refl g [symmetric] refl c] .
      then show ?thesis using Some True g by (simp add: Let_def)
    qed
  qed
qed

lemma postTelemetryBatch_consistent:
  assumes "consistentFor s0 v s"
  shows "consistentFor s0 v (snd (postTelemetryBatch p e r s))"
proof (cases "b_records (r_body r)")
  case None
  with assms show ?thesis by (simp add: postTelemetryBatch_def)
next
  case (Some recs)
  have "snd (postTelemetryBatch p e r s) = snd (snd (batchLoop e recs 0 s [] []))"
    using Some by (simp add: postTelemetryBatch_def split: prod.splits)
  with batchLoop_consistent [OF assms, of e recs 0 "[]" "[]"] show ?thesis by simp
qed

lemma getTelemetryHistory_consistent:
  assumes "consistentFor s0 v s"
  shows "consistentFor s0 v (snd (getTelemetryHistory p e r s))"
proof (cases "has (vehicles s) p \<and> map_of (telemetryData s) p \<noteq> None")
  case False
  then have "snd (getTelemetryHistory p e r s) = s"
    by (auto simp: getTelemetryHistory_def Let_def split: prod.splits)
  with assms show ?thesis by simp
next
  case True
  then obtain arr where arr: "map_of (telemetryData s) p = Some arr" by auto
  let ?s' = "snd (getTelemetryHistory p e r s)"
  have s': "?s' = s\<lparr>telemetryData := AList.update p (sortNewestFirst arr) (telemetryData s)\<rparr>"
    using True arr by (simp add: getTelemetryHistory_def Let_def split: prod.splits)
  have td: "telemetryData ?s' = AList.update p (sortNewestFirst arr) (telemetryData s)"
    and veh: "vehicles ?s' = vehicles s"
    and al: "alerts ?s' = alerts s"
    by (simp_all add: s')
  have "stored s p = arr" using arr by (simp add: stored_def)
  then have st: "set (stored ?s' v) = set (stored s v)"
    using stored_update [OF td, of v] by (auto simp: sortNewestFirst_def)
  show ?thesis
  proof (rule consistentFor_intro [OF assms])
    show "\<And>i a. (i, a) \<in> set (alerts ?s') \<Longrightarrow> a_vin a = v \<Longrightarrow>
            (\<exists>j b. (j, b) \<in> set (alerts s) \<and> content b = content a) \<or>
            (\<exists>t \<in> set (stored ?s' v). produced t a)"
      unfolding al by blast
    show "stored s v = [] \<Longrightarrow> \<not> has (vehicles s) v \<Longrightarrow>
            has (vehicles ?s') v \<or> stored ?s' v = []"
      using st by simp
  qed (simp_all add: st veh)
qed

lemma updateAlert_consistent:
  assumes "consistentFor s0 v s"
  shows "consistentFor s0 v (snd (updateAlert p e r s))"
proof (cases "snd (updateAlert p e r s) = s")
  case True
  with assms show ?thesis by simp
next
  case False
  let ?s' = "snd (updateAlert p e r s)"
  from False obtain alert st where alert: "map_of (alerts s) p = Some alert"
    and s': "?s' = s\<lparr>alerts := AList.update p (alert\<lparr>a_status := st\<rparr>) (alerts s)\<rparr>"
    by (auto simp: updateAlert_def split: option.splits if_splits)
  have td: "telemetryData ?s' = telemetryData s"
    and veh: "vehicles ?s' = vehicles s"
    and al: "alerts ?s' = AList.update p (alert\<lparr>a_status := st\<rparr>) (alerts s)"
    by (simp_all add: s')
  have st: "stored ?s' v = stored s v" using td by (rule stored_eq)
  have old: "(p, alert) \<in> set (alerts s)" using alert by (rule map_of_SomeD)
  show ?thesis
  proof (rule consistentFor_intro [OF assms])
    show "(\<exists>j b. (j, b) \<in> set (alerts s) \<and> content b = content a) \<or>
          (\<exists>t \<in> set (stored ?s' v). produced t a)"
      if "(i, a) \<in> set (alerts ?s')" "a_vin a = v" for i a
    proof -
      from that(1) have "(i, a) = (p, alert\<lparr>a_status := st\<rparr>) \<or> (i, a) \<in> set (alerts s)"
        unfolding al by (rule set_update_cases)
      then show ?thesis
      proof
        assume "(i, a) = (p, alert\<lparr>a_status := st\<rparr>)"
        then have "content alert = content a" by (auto simp: content_def)
        with old show ?thesis by blast
      next
        assume "(i, a) \<in> set (alerts s)"
        with that(2) show ?thesis by blast
      qed
    qed
  qed (simp_all add: st veh)
qed

lemma app_consistent:
  assumes "consistentFor s0 v s" and "\<not> deletes v r"
  shows "consistentFor s0 v (snd (app e r s))"
proof (cases e r s rule: app_cases)
  case notFound
  with assms show ?thesis by simp
next
  case badParam
  with assms show ?thesis by simp
next
  case (route m pat h p)
  have del: "consistentFor s0 v (snd (deleteVehicle p e r s))"
    if "r_method r = DELETE" "matchPath [L ''api'', L ''vehicles'', P] (r_path r) = Match p"
  proof -
    from assms(2) that have "p \<noteq> v" by (auto simp: deletes_def)
    with assms(1) show ?thesis by (rule deleteVehicle_consistent)
  qed
  from route(1) show ?thesis
    unfolding routes_def route(4)
    using assms(1) route(2,3) del
    by (auto simp: createVehicle_consistent updateVehicle_consistent postTelemetry_consistent
        postTelemetryBatch_consistent getTelemetryHistory_consistent updateAlert_consistent)
qed

lemma serve_consistent:
  "consistentFor s0 v s \<Longrightarrow> list_all (\<lambda>(e, r). \<not> deletes v r) reqs \<Longrightarrow>
     consistentFor s0 v (serve reqs s)"
proof (induction reqs s rule: serve.induct)
  case (1 s)
  then show ?case by simp
next
  case (2 e r rest s)
  from "2.prems" have "consistentFor s0 v (snd (app e r s))"
    by (auto intro: app_consistent)
  with "2.prems" show ?case by (auto intro: "2.IH")
qed

text \<open>At the start every alert is inherited.\<close>

lemma start_consistent: "unknownEmpty v s \<Longrightarrow> consistentFor s v s"
  by (auto simp: consistentFor_def noNewOrphansFor_iff inherited_iff)





lemma init_unknownEmpty: "unknownEmpty v init"
  by (simp add: unknownEmpty_def init_def stored_def)

text \<open>Two special cases: runs from the empty stores.\<close>

lemma no_orphans_from_init:
  assumes "list_all (\<lambda>(e, r). \<not> deletes v r) reqs"
  shows "noOrphansFor v (serve reqs init)"
  using serve_consistent [OF start_consistent [OF init_unknownEmpty] assms]
  by (simp add: consistentFor_def noNewOrphansFor_init)

lemma no_orphans_without_any_deletion:
  assumes "list_all (\<lambda>(e, r). r_method r \<noteq> DELETE) reqs"
  shows "noOrphans (serve reqs init)"
proof -
  have "noOrphansFor v (serve reqs init)" for v
  proof -
    from assms have "list_all (\<lambda>(e, r). \<not> deletes v r) reqs"
      by (auto simp: list_all_iff deletes_def)
    then show ?thesis by (rule no_orphans_from_init)
  qed
  then show ?thesis by (simp add: noOrphans_iff)
qed

lemma orphanRun_state:
  "serve orphanRun init =
     \<lparr>vehicles = [], telemetryData = [],
      alerts = [(''t++'', new_Alert (sampleEnv ''t'' 10) 2 vinA ''SPEED_VIOLATION''
                   [Lit ''Vehicle '', Lit vinA, Lit '' exceeded speed limit: '', Val (Num 85),
                    Lit '' km/h''] ''High'')]\<rparr>"
  by (simp add: orphanRun_def sample_defs)

text \<open>
  A deletion is recognised as Express recognises it: sent to \<^verbatim>\<open>/API/Vehicles/<vin>/\<close>,
  it deletes the vehicle all the same and leaves the same stores.
\<close>

lemma shoutedRun_state: "serve shoutedRun init = serve orphanRun init"
  by (simp add: orphanRun_state) (simp add: shoutedRun_def sample_defs)

lemma shouted_deletes:
  "deletes vinA (req DELETE [''API'', ''Vehicles'', vinA, []] emptyBody)"
  by (simp add: deletes_def req_def routing_defs vinA_def)




section \<open>Total distance\<close>

lemma positiveDeltas_sum:
  "positiveDeltas os = (\<Sum>i<length os - 1. max 0 (os ! Suc i - os ! i))"
proof (induction os rule: positiveDeltas.induct)
  case (1 a b rest)
  have "(\<Sum>i<Suc (length rest). max 0 ((a # b # rest) ! Suc i - (a # b # rest) ! i)) =
        max 0 ((a # b # rest) ! Suc 0 - (a # b # rest) ! 0) +
        (\<Sum>i<length rest. max 0 ((a # b # rest) ! Suc (Suc i) - (a # b # rest) ! Suc i))"
    by (rule sum.lessThan_Suc_shift)
  also have "\<dots> = max 0 (b - a) + (\<Sum>i<length rest. max 0 ((b # rest) ! Suc i - (b # rest) ! i))"
    by simp
  finally show ?case using 1 by (simp add: max_def)
qed simp_all

lemma positiveDeltas_nonneg: "0 \<le> positiveDeltas os"
  by (induction os rule: positiveDeltas.induct) simp_all

text \<open>
  Claim C8. For every window, a vehicle's distance is the sum, over its in-window
  readings ordered by timestamp, of the positive odometer differences between consecutive
  readings (a negative difference adds nothing and is not subtracted); the in-window
  readings are exactly those at or after the window's start; and the total distance is
  the sum of the vehicles' distances. A vehicle whose in-window odometer readings are
  100, 150, 120, 200 contributes 130.
\<close>

theorem totalDistance_sums_positive_deltas:
  "(since \<le> t1 \<and> t1 < t2 \<and> t2 < t3 \<and> t3 < t4 \<longrightarrow>
      vehicleDistance since [(t1, 100), (t2, 150), (t3, 120), (t4, 200)] = 130) \<and>
   vehicleDistance since rs =
     (\<Sum>i<length (inWindow since rs) - 1.
        max 0 (snd (inWindow since rs ! Suc i) - snd (inWindow since rs ! i))) \<and>
   sorted (map fst (inWindow since rs)) \<and>
   set (inWindow since rs) = {r \<in> set rs. since \<le> fst r} \<and>
   0 \<le> vehicleDistance since rs \<and>
   totalDistance since fleet = (\<Sum>rs\<leftarrow>fleet. vehicleDistance since rs)"
proof (intro conjI impI)
  assume "since \<le> t1 \<and> t1 < t2 \<and> t2 < t3 \<and> t3 < t4"
  then show "vehicleDistance since [(t1, 100), (t2, 150), (t3, 120), (t4, 200)] = 130"
    by (simp add: vehicleDistance_def inWindow_def)
next
  have "positiveDeltas (map snd (inWindow since rs)) =
          (\<Sum>i<length (map snd (inWindow since rs)) - 1.
             max 0 (map snd (inWindow since rs) ! Suc i - map snd (inWindow since rs) ! i))"
    by (rule positiveDeltas_sum)
  then show "vehicleDistance since rs =
     (\<Sum>i<length (inWindow since rs) - 1.
        max 0 (snd (inWindow since rs ! Suc i) - snd (inWindow since rs ! i)))"
    by (simp add: vehicleDistance_def)
next
  show "sorted (map fst (inWindow since rs))"
    by (simp add: inWindow_def)
next
  show "set (inWindow since rs) = {r \<in> set rs. since \<le> fst r}"
    by (auto simp: inWindow_def)
next
  show "0 \<le> vehicleDistance since rs"
    by (simp add: vehicleDistance_def positiveDeltas_nonneg)
next
  show "totalDistance since fleet = (\<Sum>rs\<leftarrow>fleet. vehicleDistance since rs)"
    by (simp add: totalDistance_def)
qed

theorem totalDistance_sums_positive_deltas_witness:
  "(0::int) \<le> 1 \<and> (1::int) < 2 \<and> (2::int) < 3 \<and> (3::int) < 4 \<and>
   vehicleDistance 0 [(1, 100), (2, 150), (3, 120), (4, 200)] = 130 \<and>
   totalDistance 0 [[(1, 100), (2, 150), (3, 120), (4, 200)], [(1, 10), (2, 5)]] = 130"
  using totalDistance_sums_positive_deltas
          [of 0 1 2 3 4 "[]" "[[(1, 100), (2, 150), (3, 120), (4, 200)], [(1, 10), (2, 5)]]"]
  by (simp add: vehicleDistance_def inWindow_def)

end
